theory Spec2Isabelle
  imports Complex_Main "HOL-Library.Word"
begin

section \<open>Strings and numbers of the source language\<close>

text \<open>
  A JavaScript string is a sequence of UTF-16 code units. \<open>charCodeAt(0)\<close> reads the
  first code unit (and is NaN on the empty string), \<open>String.fromCharCode\<close> truncates its
  argument to 16 bits, and \<open>for (const ch of text)\<close> walks the string by code point: a
  high surrogate followed by a low surrogate is one two-unit character, every other
  code unit is a character of its own.

  Integer-valued JavaScript numbers (code points, indices, counters) are modelled as
  \<open>int\<close>: all of them stay far below \<open>2^53\<close>, where doubles are exact.
\<close>

type_synonym jsstring = "16 word list"

definition charCodeAt0 :: "jsstring \<Rightarrow> int option" where
  "charCodeAt0 s = (case s of [] \<Rightarrow> None | c # _ \<Rightarrow> Some (uint c))"

definition fromCharCode :: "int \<Rightarrow> jsstring" where
  "fromCharCode n = [word_of_int n]"

definition isHighSurrogate :: "16 word \<Rightarrow> bool" where
  "isHighSurrogate c \<longleftrightarrow> 0xD800 \<le> uint c \<and> uint c \<le> 0xDBFF"

definition isLowSurrogate :: "16 word \<Rightarrow> bool" where
  "isLowSurrogate c \<longleftrightarrow> 0xDC00 \<le> uint c \<and> uint c \<le> 0xDFFF"

fun chars :: "jsstring \<Rightarrow> jsstring list" where
  "chars [] = []"
| "chars [c] = [[c]]"
| "chars (c # d # r) =
     (if isHighSurrogate c \<and> isLowSurrogate d then [c, d] # chars r
      else [c] # chars (d # r))"

text \<open>\<open>Array.prototype.indexOf\<close>: the first position of the element, \<open>-1\<close> when absent.\<close>

fun indexOf :: "'a list \<Rightarrow> 'a \<Rightarrow> int" where
  "indexOf [] x = -1"
| "indexOf (y # ys) x =
     (if y = x then 0 else (let r = indexOf ys x in if r < 0 then -1 else r + 1))"

text \<open>Reading an array at an index: \<open>undefined\<close> (here \<open>None\<close>) outside the array.\<close>

definition tbl_get :: "'a list \<Rightarrow> int \<Rightarrow> 'a option" where
  "tbl_get xs i = (if 0 \<le> i \<and> i < int (length xs) then Some (xs ! nat i) else None)"

section \<open>Jamo tables\<close>

definition CHOSEONG :: "jsstring list" where
  "CHOSEONG =
    [[0x3131], [0x3132], [0x3134], [0x3137], [0x3138], [0x3139], [0x3141], [0x3142],
     [0x3143], [0x3145], [0x3146], [0x3147], [0x3148], [0x3149], [0x314A], [0x314B],
     [0x314C], [0x314D], [0x314E]]"

definition JUNGSEONG :: "jsstring list" where
  "JUNGSEONG =
    [[0x314F], [0x3150], [0x3151], [0x3152], [0x3153], [0x3154], [0x3155], [0x3156],
     [0x3157], [0x3158], [0x3159], [0x315A], [0x315B], [0x315C], [0x315D], [0x315E],
     [0x315F], [0x3160], [0x3161], [0x3162], [0x3163]]"

definition JONGSEONG :: "jsstring list" where
  "JONGSEONG =
    [[], [0x3131], [0x3132], [0x3133], [0x3134], [0x3135], [0x3136], [0x3137],
     [0x3139], [0x313A], [0x313B], [0x313C], [0x313D], [0x313E], [0x313F], [0x3140],
     [0x3141], [0x3142], [0x3144], [0x3145], [0x3146], [0x3147], [0x3148], [0x314A],
     [0x314B], [0x314C], [0x314D], [0x314E]]"

definition VOWEL_bright :: "jsstring list" where
  "VOWEL_bright =
    [[0x314F], [0x3150], [0x3151], [0x3152], [0x3157], [0x3158], [0x3159], [0x315A],
     [0x315B]]"

definition VOWEL_dark :: "jsstring list" where
  "VOWEL_dark =
    [[0x3153], [0x3154], [0x3155], [0x3156], [0x315C], [0x315D], [0x315E], [0x315F],
     [0x3160]]"

definition VOWEL_neutral :: "jsstring list" where
  "VOWEL_neutral = [[0x3161], [0x3162], [0x3163]]"

definition SYLLABLE_BASE :: int where
  "SYLLABLE_BASE = 0xAC00"

definition SYLLABLE_END :: int where
  "SYLLABLE_END = 0xD7A3"

section \<open>Codec\<close>

text \<open>A comparison with NaN is false, so the empty string is no syllable.\<close>

definition isSyllable :: "jsstring \<Rightarrow> bool" where
  "isSyllable ch =
     (case charCodeAt0 ch of None \<Rightarrow> False
      | Some code \<Rightarrow> code \<ge> SYLLABLE_BASE \<and> code \<le> SYLLABLE_END)"

text \<open>
  The record returned by \<open>decompose\<close>. In \<open>cho\<close> and \<open>jung\<close>, \<open>None\<close> is
  \<open>undefined\<close> (a table read out of range); in \<open>jong\<close>, \<open>None\<close> is \<open>null\<close>.
\<close>

record decomposed =
  syllable :: jsstring
  cho :: "jsstring option"
  jung :: "jsstring option"
  jong :: "jsstring option"
  choIdx :: int
  jungIdx :: int
  jongIdx :: int
  hasJong :: bool

text \<open>\<open>x || null\<close> on a table read: \<open>undefined\<close> and the empty string are falsy.\<close>

definition orNull :: "jsstring option \<Rightarrow> jsstring option" where
  "orNull v = (case v of None \<Rightarrow> None | Some s \<Rightarrow> if s = [] then None else Some s)"

text \<open>
  \<open>code - jongIdx\<close> is a multiple of 28, so the floating-point quotient by 28 is the
  integer quotient; \<open>Math.floor\<close> of the quotient by 21 is \<open>div\<close>. On the non-negative
  \<open>code\<close> the remainder \<open>%\<close> is \<open>mod\<close>.
\<close>

definition decompose :: "jsstring \<Rightarrow> decomposed option" where
  "decompose ch =
     (if \<not> isSyllable ch then None
      else case charCodeAt0 ch of None \<Rightarrow> None
      | Some c0 \<Rightarrow>
          (let code = c0 - SYLLABLE_BASE;
               jongI = code mod 28;
               jungI = ((code - jongI) div 28) mod 21;
               choI = ((code - jongI) div 28) div 21
           in Some \<lparr> syllable = ch,
                     cho = tbl_get CHOSEONG choI,
                     jung = tbl_get JUNGSEONG jungI,
                     jong = orNull (tbl_get JONGSEONG jongI),
                     choIdx = choI, jungIdx = jungI, jongIdx = jongI,
                     hasJong = (jongI \<noteq> 0) \<rparr>))"

text \<open>
  \<open>compose(cho, jung, jong = '')\<close>. The third argument is \<open>None\<close> when it is left out
  or \<open>null\<close>: the default value and the test \<open>jong ? ... : 0\<close> treat both as the
  empty string.
\<close>

definition compose :: "jsstring \<Rightarrow> jsstring \<Rightarrow> jsstring option \<Rightarrow> jsstring option" where
  "compose c j jongArg =
     (let jongS = (case jongArg of None \<Rightarrow> [] | Some s \<Rightarrow> s);
          choI = indexOf CHOSEONG c;
          jungI = indexOf JUNGSEONG j;
          jongI = (if jongS \<noteq> [] then indexOf JONGSEONG jongS else 0)
      in if choI < 0 \<or> jungI < 0 \<or> jongI < 0 then None
         else Some (fromCharCode (SYLLABLE_BASE + (choI * 21 + jungI) * 28 + jongI)))"

section \<open>Objects, sorting and splitting\<close>

text \<open>
  An object used as a dictionary is an association list in insertion order, which is
  the order \<open>Object.entries\<close> lists string keys in (all keys here are jamo symbols or
  concatenations of them, never integer-like). Writing an existing key keeps its place;
  writing a new key appends it. A key that is not a string is converted to one:
  \<open>undefined\<close> becomes the text "undefined".
\<close>

definition propertyKey :: "jsstring option \<Rightarrow> jsstring" where
  "propertyKey v =
     (case v of
        None \<Rightarrow> [0x75, 0x6E, 0x64, 0x65, 0x66, 0x69, 0x6E, 0x65, 0x64]
      | Some s \<Rightarrow> s)"

fun obj_set :: "('k \<times> 'v) list \<Rightarrow> 'k \<Rightarrow> 'v \<Rightarrow> ('k \<times> 'v) list" where
  "obj_set [] k v = [(k, v)]"
| "obj_set ((k', v') # r) k v =
     (if k' = k then (k', v) # r else (k', v') # obj_set r k v)"

text \<open>\<open>obj[k] || 0\<close> on an object of numbers: a missing key and the value 0 both give 0.\<close>

definition get_or_zero :: "('k \<times> 'v::zero) list \<Rightarrow> 'k \<Rightarrow> 'v" where
  "get_or_zero obj k = (case map_of obj k of None \<Rightarrow> 0 | Some v \<Rightarrow> v)"

text \<open>\<open>freq[k] = (freq[k] || 0) + 1\<close>\<close>

definition freq_incr :: "(jsstring \<times> int) list \<Rightarrow> jsstring \<Rightarrow> (jsstring \<times> int) list" where
  "freq_incr f k = obj_set f k (get_or_zero f k + 1)"

text \<open>
  \<open>Array.prototype.sort\<close> with a comparator is a stable sort: an element goes before
  another when the comparator is negative, and elements that compare equal keep their
  order. The model inserts from the right, in front of the first element that does not
  have to precede.
\<close>

fun insert_by :: "('a \<Rightarrow> 'a \<Rightarrow> int) \<Rightarrow> 'a \<Rightarrow> 'a list \<Rightarrow> 'a list" where
  "insert_by cmp x [] = [x]"
| "insert_by cmp x (y # ys) =
     (if cmp x y \<le> 0 then x # y # ys else y # insert_by cmp x ys)"

definition js_sort :: "('a \<Rightarrow> 'a \<Rightarrow> int) \<Rightarrow> 'a list \<Rightarrow> 'a list" where
  "js_sort cmp xs = foldr (insert_by cmp) xs []"

definition sortByValue :: "(jsstring \<times> int) list \<Rightarrow> (jsstring \<times> int) list" where
  "sortByValue obj = js_sort (\<lambda>a b. snd b - snd a) obj"

text \<open>The code units matched by \<open>\s\<close> and removed by \<open>trim\<close>.\<close>

definition isWhiteSpace :: "16 word \<Rightarrow> bool" where
  "isWhiteSpace c \<longleftrightarrow>
     c \<in> set [0x0009, 0x000A, 0x000B, 0x000C, 0x000D, 0x0020, 0x00A0, 0x1680,
               0x2000, 0x2001, 0x2002, 0x2003, 0x2004, 0x2005, 0x2006, 0x2007,
               0x2008, 0x2009, 0x200A, 0x2028, 0x2029, 0x202F, 0x205F, 0x3000,
               0xFEFF]"

text \<open>
  \<open>text.split(/\s+/)\<close>: each maximal run of whitespace ends the current piece; the
  piece before a leading run and the piece after a trailing run are empty strings, and
  the empty text gives one empty piece.
\<close>

function split_ws :: "jsstring \<Rightarrow> jsstring \<Rightarrow> jsstring list" where
  "split_ws cur [] = [cur]"
| "split_ws cur (c # cs) =
     (if isWhiteSpace c then cur # split_ws [] (dropWhile isWhiteSpace cs)
      else split_ws (cur @ [c]) cs)"
  by pat_completeness auto
termination
  by (relation "measure (\<lambda>(cur, cs). length cs)")
     (auto simp: length_dropWhile_le le_imp_less_Suc)

text \<open>\<open>text.split('\n')\<close>\<close>

fun split_on :: "16 word \<Rightarrow> jsstring \<Rightarrow> jsstring \<Rightarrow> jsstring list" where
  "split_on sep cur [] = [cur]"
| "split_on sep cur (c # cs) =
     (if c = sep then cur # split_on sep [] cs else split_on sep (cur @ [c]) cs)"

definition trim :: "jsstring \<Rightarrow> jsstring" where
  "trim l = rev (dropWhile isWhiteSpace (rev (dropWhile isWhiteSpace l)))"

section \<open>Analyzer\<close>

definition array_includes :: "jsstring list \<Rightarrow> jsstring option \<Rightarrow> bool" where
  "array_includes xs v = (case v of None \<Rightarrow> False | Some s \<Rightarrow> s \<in> set xs)"

text \<open>A string or \<open>null\<close> used as a condition: only a non-empty string is truthy.\<close>

definition truthy :: "jsstring option \<Rightarrow> bool" where
  "truthy v = (case v of None \<Rightarrow> False | Some s \<Rightarrow> s \<noteq> [])"

record harmony =
  bright :: int
  dark :: int
  neutral :: int
  tendency :: jsstring

record analysis =
  syllables :: "decomposed list"
  totalSyllables :: int
  withJong :: int
  withoutJong :: int
  jongRatio :: real
  choFreq :: "(jsstring \<times> int) list"
  jungFreq :: "(jsstring \<times> int) list"
  jongFreq :: "(jsstring \<times> int) list"
  vowelHarmony :: harmony

text \<open>The local variables of \<open>analyze\<close> that its loop updates.\<close>

record analyze_vars =
  v_syllables :: "decomposed list"
  v_choFreq :: "(jsstring \<times> int) list"
  v_jungFreq :: "(jsstring \<times> int) list"
  v_jongFreq :: "(jsstring \<times> int) list"
  v_totalSyllables :: int
  v_withJong :: int
  v_brightVowels :: int
  v_darkVowels :: int
  v_neutralVowels :: int

definition analyze_init :: analyze_vars where
  "analyze_init =
     \<lparr> v_syllables = [], v_choFreq = [], v_jungFreq = [], v_jongFreq = [],
       v_totalSyllables = 0, v_withJong = 0,
       v_brightVowels = 0, v_darkVowels = 0, v_neutralVowels = 0 \<rparr>"

text \<open>One round of the loop \<open>for (const ch of text)\<close>.\<close>

definition analyze_step :: "analyze_vars \<Rightarrow> jsstring \<Rightarrow> analyze_vars" where
  "analyze_step st ch =
     (case decompose ch of
        None \<Rightarrow> st
      | Some d \<Rightarrow>
          st \<lparr> v_syllables := v_syllables st @ [d],
               v_totalSyllables := v_totalSyllables st + 1,
               v_choFreq := freq_incr (v_choFreq st) (propertyKey (cho d)),
               v_jungFreq := freq_incr (v_jungFreq st) (propertyKey (jung d)),
               v_jongFreq :=
                 (if truthy (jong d) then freq_incr (v_jongFreq st) (propertyKey (jong d))
                  else v_jongFreq st),
               v_withJong :=
                 (if truthy (jong d) then v_withJong st + 1 else v_withJong st),
               v_brightVowels :=
                 (if array_includes VOWEL_bright (jung d) then v_brightVowels st + 1
                  else v_brightVowels st),
               v_darkVowels :=
                 (if array_includes VOWEL_bright (jung d) then v_darkVowels st
                  else if array_includes VOWEL_dark (jung d) then v_darkVowels st + 1
                  else v_darkVowels st),
               v_neutralVowels :=
                 (if array_includes VOWEL_bright (jung d) then v_neutralVowels st
                  else if array_includes VOWEL_dark (jung d) then v_neutralVowels st
                  else v_neutralVowels st + 1) \<rparr>)"

definition analyze :: "jsstring \<Rightarrow> analysis" where
  "analyze text =
     (let st = foldl analyze_step analyze_init (chars text) in
      \<lparr> syllables = v_syllables st,
        totalSyllables = v_totalSyllables st,
        withJong = v_withJong st,
        withoutJong = v_totalSyllables st - v_withJong st,
        jongRatio =
          (if v_totalSyllables st \<noteq> 0
           then real_of_int (v_withJong st) / real_of_int (v_totalSyllables st) else 0),
        choFreq = sortByValue (v_choFreq st),
        jungFreq = sortByValue (v_jungFreq st),
        jongFreq = sortByValue (v_jongFreq st),
        vowelHarmony =
          \<lparr> bright = v_brightVowels st,
            dark = v_darkVowels st,
            neutral = v_neutralVowels st,
            tendency =
              (if v_brightVowels st > v_darkVowels st
               then [0xC591, 0xC131, 0x0020, 0x0028, 0x0062, 0x0072, 0x0069, 0x0067,
                     0x0068, 0x0074, 0x0029]
               else if v_darkVowels st > v_brightVowels st
               then [0xC74C, 0xC131, 0x0020, 0x0028, 0x0064, 0x0061, 0x0072, 0x006B,
                     0x0029]
               else [0xADE0, 0xD615, 0x0020, 0x0028, 0x0062, 0x0061, 0x006C, 0x0061,
                     0x006E, 0x0063, 0x0065, 0x0064, 0x0029]) \<rparr> \<rparr>)"

section \<open>Rhyme detector\<close>

text \<open>
  One round of the grouping loop: the key is \<open>s.jung + (s.jong || '')\<close>, and the
  syllable is pushed on the key's list, which is created empty at the key's first use.
\<close>

definition rhyme_key :: "decomposed \<Rightarrow> jsstring" where
  "rhyme_key s = propertyKey (jung s) @ (if truthy (jong s) then propertyKey (jong s) else [])"

definition rhyme_step ::
  "(jsstring \<times> jsstring list) list \<Rightarrow> decomposed \<Rightarrow> (jsstring \<times> jsstring list) list" where
  "rhyme_step endings s =
     (let key = rhyme_key s;
          endings1 = (case map_of endings key of None \<Rightarrow> obj_set endings key []
                      | Some v \<Rightarrow> endings)
      in obj_set endings1 key
           ((case map_of endings1 key of None \<Rightarrow> [] | Some v \<Rightarrow> v) @ [syllable s]))"

definition findRhymes :: "jsstring \<Rightarrow> (jsstring \<times> jsstring list) list" where
  "findRhymes text =
     (let analysis = analyze text;
          endings = foldl rhyme_step [] (syllables analysis)
      in js_sort (\<lambda>a b. int (length (snd b)) - int (length (snd a)))
           (filter (\<lambda>(k, v). length v > 1) endings))"

section \<open>Harmony pattern mapper\<close>

text \<open>
  The inner loop collects one-character strings, \<open>'+'\<close>, \<open>'-'\<close> or the middle dot
  U+00B7, and \<open>join('')\<close> concatenates them. The function also calls
  \<open>analyze(text)\<close> and does not use the result; the call has no effect and is
  left out.
\<close>

definition pattern_step :: "jsstring list \<Rightarrow> jsstring \<Rightarrow> jsstring list" where
  "pattern_step pattern ch =
     (case decompose ch of
        None \<Rightarrow> pattern
      | Some d \<Rightarrow>
          if array_includes VOWEL_bright (jung d) then pattern @ [[0x002B]]
          else if array_includes VOWEL_dark (jung d) then pattern @ [[0x002D]]
          else pattern @ [[0x00B7]])"

definition word_step ::
  "(jsstring \<times> jsstring) list \<Rightarrow> jsstring \<Rightarrow> (jsstring \<times> jsstring) list" where
  "word_step wordPatterns word =
     (let pattern = foldl pattern_step [] (chars word)
      in if length pattern > 0 then wordPatterns @ [(word, concat pattern)]
         else wordPatterns)"

definition vowelHarmonyAnalysis :: "jsstring \<Rightarrow> (jsstring \<times> jsstring) list" where
  "vowelHarmonyAnalysis text = foldl word_step [] (split_ws [] text)"

section \<open>Notions used in the statements\<close>

text \<open>The decomposed syllables of a sequence of characters, in order.\<close>

definition decs :: "jsstring list \<Rightarrow> decomposed list" where
  "decs cs = List.map_filter decompose cs"

text \<open>
  A frequency list in descending order of count, entries of equal count in ascending
  order of the position \<open>pos\<close> of their symbol.
\<close>

definition sorted_desc_ties_by :: "(jsstring \<Rightarrow> int) \<Rightarrow> (jsstring \<times> int) list \<Rightarrow> bool" where
  "sorted_desc_ties_by pos f =
     sorted_wrt (\<lambda>a b. snd b < snd a \<or> (snd a = snd b \<and> pos (fst a) < pos (fst b))) f"

text \<open>
  The syllables of a text whose ending key is \<open>k\<close>, in order of appearance,
  duplicates included.
\<close>

definition rhyme_group :: "jsstring \<Rightarrow> jsstring \<Rightarrow> jsstring list" where
  "rhyme_group text k = map syllable (filter (\<lambda>s. rhyme_key s = k) (decs (chars text)))"

text \<open>
  Splitting a text at its runs of whitespace. The pieces and the separators between
  them, taken in turn, make up the text again; every separator is a non-empty run of
  whitespace; no piece contains whitespace; and only the first and the last piece can
  be empty, so that each separator is a whole run.
\<close>

fun interleave :: "jsstring list \<Rightarrow> jsstring list \<Rightarrow> jsstring" where
  "interleave [] seps = []"
| "interleave (p # ps) [] = p"
| "interleave (p # ps) (s # seps) = p @ s @ interleave ps seps"

definition splits_at_whitespace :: "jsstring \<Rightarrow> jsstring list \<Rightarrow> bool" where
  "splits_at_whitespace text pieces \<longleftrightarrow>
     (\<exists>seps. length pieces = length seps + 1
        \<and> (\<forall>s \<in> set seps. s \<noteq> [] \<and> (\<forall>c \<in> set s. isWhiteSpace c))
        \<and> (\<forall>p \<in> set pieces. \<forall>c \<in> set p. \<not> isWhiteSpace c)
        \<and> (\<forall>p \<in> set (butlast (tl pieces)). p \<noteq> [])
        \<and> interleave pieces seps = text)"

text \<open>
  The pattern symbol of a syllable: \<open>+\<close> for a bright medial, \<open>-\<close> for a dark
  one, the middle dot U+00B7 for a neutral one.
\<close>

definition harmony_symbol :: "decomposed \<Rightarrow> 16 word \<Rightarrow> bool" where
  "harmony_symbol d c \<longleftrightarrow>
     (\<exists>s. jung d = Some s
        \<and> (s \<in> set VOWEL_bright \<and> c = 0x002B
           \<or> s \<in> set VOWEL_dark \<and> c = 0x002D
           \<or> s \<in> set VOWEL_neutral \<and> c = 0x00B7))"

section \<open>Fingerprint and comparison\<close>

text \<open>
  The numbers of the fingerprint are IEEE doubles in the source. They are modelled as
  real numbers and every operation on them is exact: \<open>Math.round(x)\<close> is
  \<open>\<lfloor>x + 1/2\<rfloor>\<close>, \<open>Math.log2\<close> is \<open>log 2\<close>, \<open>x ** 2\<close> is the exact square. The
  rounding error of double arithmetic is outside the model, and the language leaves
  \<open>Math.log2\<close> and \<open>**\<close> implementation-approximated. So a number of the model
  can differ from the program's number in the last binary digits, and after rounding to
  decimals in the last decimal when the exact value lies at a half: 201 finals among
  400 syllables give the weight 0.503 here, where the double product
  502.49999999999994 is rounded to 0.502. No bound or identity is claimed of these
  numbers for all texts; the one evaluation below is at texts where the double
  computation gives the same rounded result.
\<close>

definition js_round :: "real \<Rightarrow> nat \<Rightarrow> real" where
  "js_round n digits = (let f = 10 ^ digits in real_of_int \<lfloor>n * f + 1 / 2\<rfloor> / f)"

definition shannonEntropy :: "real list \<Rightarrow> real" where
  "shannonEntropy probs =
     - foldl (\<lambda>sum p. sum + (if p > 0 then p * log 2 p else 0)) 0 probs"

text \<open>
  The loop of \<open>cosineSimilarity\<close> runs over the indices of \<open>a\<close>. Reading \<open>b\<close>
  past its end gives \<open>undefined\<close>, which turns the three sums, and so the result,
  into NaN.
\<close>

datatype jsnumber = NaN | Num real

fun cosine_loop :: "real list \<Rightarrow> real list \<Rightarrow> real \<times> real \<times> real \<Rightarrow> (real \<times> real \<times> real) option" where
  "cosine_loop [] b acc = Some acc"
| "cosine_loop (x # a) [] acc = None"
| "cosine_loop (x # a) (y # b) (dot, magA, magB) =
     cosine_loop a b (dot + x * y, magA + x ^ 2, magB + y ^ 2)"

definition cosineSimilarity :: "real list \<Rightarrow> real list \<Rightarrow> jsnumber" where
  "cosineSimilarity a b =
     (case cosine_loop a b (0, 0, 0) of
        None \<Rightarrow> NaN
      | Some (dot, magA, magB) \<Rightarrow>
          (let denom = sqrt magA * sqrt magB
           in Num (if denom = 0 then 0 else dot / denom)))"

record fingerprint_result =
  fp_totalSyllables :: int
  brightness :: real
  weight :: real
  rhythmRegularity :: real
  avgLineLength :: real
  consonantDiversity :: real
  vowelDiversity :: real
  choProfile :: "(jsstring \<times> real) list"
  jungProfile :: "(jsstring \<times> real) list"
  topCho :: "jsstring list"
  topJung :: "jsstring list"

text \<open>\<open>(freq[c] || 0) / total\<close> for each symbol of a table, written into a new object.\<close>

definition profile ::
  "jsstring list \<Rightarrow> (jsstring \<times> int) list \<Rightarrow> int \<Rightarrow> (jsstring \<times> real) list" where
  "profile tbl freq n =
     foldl (\<lambda>p c. obj_set p c (real_of_int (get_or_zero freq c) / real_of_int n)) [] tbl"

text \<open>The syllable counts of the non-blank lines, without the lines that have none.\<close>

definition lineLengths :: "jsstring \<Rightarrow> int list" where
  "lineLengths text =
     filter (\<lambda>n. n > 0)
       (map (\<lambda>line. foldl (\<lambda>count ch. if isSyllable ch then count + 1 else count) 0
                       (chars line))
          (filter (\<lambda>l. trim l \<noteq> []) (split_on 0x000A [] text)))"

definition fingerprint :: "jsstring \<Rightarrow> fingerprint_result option" where
  "fingerprint text =
     (let result = analyze text in
      if totalSyllables result = 0 then None
      else
        let total = totalSyllables result;
            choProfile = profile CHOSEONG (choFreq result) total;
            jungProfile = profile JUNGSEONG (jungFreq result) total;
            bright = bright (vowelHarmony result);
            dark = dark (vowelHarmony result);
            brightnessRaw = bright - dark;
            brightnessMax = (if bright + dark \<noteq> 0 then bright + dark else 1);
            brightness = real_of_int brightnessRaw / real_of_int brightnessMax;
            weight = jongRatio result;
            lens = lineLengths text;
            avgLineLength =
              (if length lens \<noteq> 0
               then real_of_int (foldl (\<lambda>a b. a + b) 0 lens) / real (length lens)
               else 0);
            lineVariance =
              (if length lens > 1
               then foldl (\<lambda>sum n. sum + (real_of_int n - avgLineLength) ^ 2) 0 lens
                      / real (length lens)
               else 0);
            rhythmRegularity =
              (if avgLineLength > 0
               then 1 - min 1 (sqrt lineVariance / avgLineLength) else 0);
            choEntropy = shannonEntropy (filter (\<lambda>v. v > 0) (map snd choProfile));
            maxChoEntropy = log 2 (real (length CHOSEONG));
            consonantDiversity =
              (if maxChoEntropy > 0 then choEntropy / maxChoEntropy else 0);
            jungEntropy = shannonEntropy (filter (\<lambda>v. v > 0) (map snd jungProfile));
            maxJungEntropy = log 2 (real (length JUNGSEONG));
            vowelDiversity =
              (if maxJungEntropy > 0 then jungEntropy / maxJungEntropy else 0)
        in Some \<lparr> fp_totalSyllables = total,
                  brightness = js_round brightness 3,
                  weight = js_round weight 3,
                  rhythmRegularity = js_round rhythmRegularity 3,
                  avgLineLength = js_round avgLineLength 1,
                  consonantDiversity = js_round consonantDiversity 3,
                  vowelDiversity = js_round vowelDiversity 3,
                  choProfile = choProfile,
                  jungProfile = jungProfile,
                  topCho = map fst (take 3 (choFreq result)),
                  topJung = map fst (take 3 (jungFreq result)) \<rparr>)"

text \<open>The feature vector of a fingerprint: \<open>profile[c] || 0\<close> over both tables, then
  brightness, weight and rhythm regularity.\<close>

definition feature_vector :: "fingerprint_result \<Rightarrow> real list" where
  "feature_vector fp =
     map (\<lambda>c. get_or_zero (choProfile fp) c) CHOSEONG
     @ map (\<lambda>v. get_or_zero (jungProfile fp) v) JUNGSEONG
     @ [brightness fp, weight fp, rhythmRegularity fp]"

definition compare :: "jsstring \<Rightarrow> jsstring \<Rightarrow> jsnumber option" where
  "compare textA textB =
     (case (fingerprint textA, fingerprint textB) of
        (Some fpA, Some fpB) \<Rightarrow>
          Some (case cosineSimilarity (feature_vector fpA) (feature_vector fpB) of
                  NaN \<Rightarrow> NaN
                | Num x \<Rightarrow> Num (js_round x 4))
      | _ \<Rightarrow> None)"

text \<open>
  Two texts with no initial and no medial in common: five lines of 1, 1, 1, 1 and 6
  times the syllable U+AC00 (initial U+3131, bright medial U+314F, no final), and the
  single syllable U+B108 (initial U+3134, dark medial U+3153, no final).
\<close>

definition uneven_bright_text :: jsstring where
  "uneven_bright_text =
     [0xAC00, 0x000A, 0xAC00, 0x000A, 0xAC00, 0x000A, 0xAC00, 0x000A,
      0xAC00, 0xAC00, 0xAC00, 0xAC00, 0xAC00, 0xAC00]"

definition one_dark_syllable :: jsstring where
  "one_dark_syllable = [0xB108]"

section \<open>Facts about the tables and the index arithmetic\<close>

lemma distinct_CHOSEONG: "distinct CHOSEONG"
  by (simp add: CHOSEONG_def)

lemma distinct_JUNGSEONG: "distinct JUNGSEONG"
  by (simp add: JUNGSEONG_def)

lemma distinct_JONGSEONG: "distinct JONGSEONG"
  by (simp add: JONGSEONG_def)

lemma length_tables:
  "length CHOSEONG = 19" "length JUNGSEONG = 21" "length JONGSEONG = 28"
  by (simp_all add: CHOSEONG_def JUNGSEONG_def JONGSEONG_def)

lemma indexOf_ge: "- 1 \<le> indexOf xs x"
  by (induction xs) (auto simp: Let_def)

lemma indexOf_neg_iff: "indexOf xs x < 0 \<longleftrightarrow> x \<notin> set xs"
proof (induction xs)
  case Nil
  show ?case by simp
next
  case (Cons y ys)
  from indexOf_ge [of ys x] have "\<not> indexOf ys x + 1 < 0" by simp
  with Cons show ?case by (simp add: Let_def)
qed

lemma indexOf_nth:
  "distinct xs \<Longrightarrow> i < length xs \<Longrightarrow> indexOf xs (xs ! i) = int i"
proof (induction xs arbitrary: i)
  case Nil
  then show ?case by simp
next
  case (Cons y ys)
  show ?case
  proof (cases i)
    case 0
    then show ?thesis by simp
  next
    case (Suc k)
    with Cons.prems have k: "k < length ys" and d: "distinct ys" and ny: "y \<notin> set ys"
      by auto
    from k ny have "y \<noteq> ys ! k" by (metis nth_mem)
    with Cons.IH [OF d k] Suc show ?thesis by (simp add: Let_def)
  qed
qed

lemma tbl_get_nth:
  "0 \<le> i \<Longrightarrow> i < int (length xs) \<Longrightarrow> tbl_get xs i = Some (xs ! nat i)"
  by (simp add: tbl_get_def)

lemma JONGSEONG_nth_nonempty:
  assumes "0 < k" "k < 28"
  shows "JONGSEONG ! k \<noteq> []"
proof -
  have z: "JONGSEONG ! 0 = []" by (simp add: JONGSEONG_def)
  have "JONGSEONG ! k \<noteq> JONGSEONG ! 0"
    using assms distinct_JONGSEONG length_tables(3)
    by (simp add: nth_eq_iff_index_eq)
  with z show ?thesis by simp
qed

lemma exact_quotient:
  fixes code :: int
  shows "(code - code mod 28) div 28 = code div 28"
proof -
  have "code - code mod 28 = code div 28 * 28"
    by (simp add: minus_mod_eq_div_mult)
  then show ?thesis by simp
qed

lemma index_bounds:
  fixes code :: int
  assumes "0 \<le> code" "code \<le> 11171"
  shows "0 \<le> code mod 28" "code mod 28 < 28"
    "0 \<le> ((code - code mod 28) div 28) mod 21"
    "((code - code mod 28) div 28) mod 21 < 21"
    "0 \<le> ((code - code mod 28) div 28) div 21"
    "((code - code mod 28) div 28) div 21 < 19"
proof -
  show "0 \<le> code mod 28" "code mod 28 < 28" by simp_all
  show "0 \<le> ((code - code mod 28) div 28) mod 21"
    "((code - code mod 28) div 28) mod 21 < 21" by simp_all
  have q: "0 \<le> code div 28" "code div 28 < 399"
    using assms by linarith+
  then show "0 \<le> ((code - code mod 28) div 28) div 21"
    by (simp add: exact_quotient pos_imp_zdiv_nonneg_iff)
  from q show "((code - code mod 28) div 28) div 21 < 19"
    unfolding exact_quotient by linarith
qed

lemma index_recompose:
  fixes code :: int
  shows "(((code - code mod 28) div 28) div 21 * 21
        + ((code - code mod 28) div 28) mod 21) * 28 + code mod 28 = code"
  by (simp add: exact_quotient)


lemma decompose_eq_None_iff: "decompose ch = None \<longleftrightarrow> \<not> isSyllable ch"
  by (auto simp: decompose_def isSyllable_def Let_def split: option.splits)

lemma decompose_fields:
  assumes "decompose ch = Some d"
  shows "syllable d = ch"
    and "0 \<le> choIdx d" and "choIdx d < 19"
    and "0 \<le> jungIdx d" and "jungIdx d < 21"
    and "0 \<le> jongIdx d" and "jongIdx d < 28"
    and "cho d = Some (CHOSEONG ! nat (choIdx d))"
    and "jung d = Some (JUNGSEONG ! nat (jungIdx d))"
    and "jong d = (if jongIdx d = 0 then None else Some (JONGSEONG ! nat (jongIdx d)))"
    and "hasJong d \<longleftrightarrow> jongIdx d \<noteq> 0"
    and "charCodeAt0 ch
           = Some (SYLLABLE_BASE + (choIdx d * 21 + jungIdx d) * 28 + jongIdx d)"
proof -
  from assms obtain c0 where c0: "charCodeAt0 ch = Some c0"
    and lo: "SYLLABLE_BASE \<le> c0" and hi: "c0 \<le> SYLLABLE_END"
    by (auto simp: decompose_def isSyllable_def split: option.splits if_splits)
  define code where "code = c0 - SYLLABLE_BASE"
  define kI where "kI = code mod 28"
  define jI where "jI = ((code - kI) div 28) mod 21"
  define cI where "cI = ((code - kI) div 28) div 21"
  have rng: "0 \<le> code" "code \<le> 11171"
    using lo hi by (simp_all add: code_def SYLLABLE_BASE_def SYLLABLE_END_def)
  have b: "0 \<le> kI" "kI < 28" "0 \<le> jI" "jI < 21" "0 \<le> cI" "cI < 19"
    unfolding cI_def jI_def kI_def by (rule index_bounds [OF rng])+
  have r: "(cI * 21 + jI) * 28 + kI = code"
    unfolding cI_def jI_def kI_def by (rule index_recompose)
  have s: "isSyllable ch" using c0 lo hi by (simp add: isSyllable_def)
  have d: "d = \<lparr> syllable = ch,
        cho = tbl_get CHOSEONG cI, jung = tbl_get JUNGSEONG jI,
        jong = orNull (tbl_get JONGSEONG kI),
        choIdx = cI, jungIdx = jI, jongIdx = kI, hasJong = (kI \<noteq> 0) \<rparr>"
    using assms unfolding decompose_def Let_def cI_def jI_def kI_def code_def
    by (simp only: s c0 not_True_eq_False if_False option.case option.inject)
  have sel: "syllable d = ch" "cho d = tbl_get CHOSEONG cI" "jung d = tbl_get JUNGSEONG jI"
    "jong d = orNull (tbl_get JONGSEONG kI)" "choIdx d = cI" "jungIdx d = jI"
    "jongIdx d = kI" "hasJong d = (kI \<noteq> 0)"
    unfolding d by simp_all
  show "syllable d = ch" by (rule sel)
  show "0 \<le> choIdx d" "choIdx d < 19" using b by (simp_all only: sel)
  show "0 \<le> jungIdx d" "jungIdx d < 21" using b by (simp_all only: sel)
  show "0 \<le> jongIdx d" "jongIdx d < 28" using b by (simp_all only: sel)
  show "cho d = Some (CHOSEONG ! nat (choIdx d))"
    unfolding sel using b by (simp add: tbl_get_nth length_tables)
  show "jung d = Some (JUNGSEONG ! nat (jungIdx d))"
    unfolding sel using b by (simp add: tbl_get_nth length_tables)
  show "hasJong d \<longleftrightarrow> jongIdx d \<noteq> 0" by (simp only: sel)
  show "jong d = (if jongIdx d = 0 then None else Some (JONGSEONG ! nat (jongIdx d)))"
  proof (cases "kI = 0")
    case True
    have "tbl_get JONGSEONG 0 = Some []"
      by (simp add: tbl_get_def JONGSEONG_def)
    then show ?thesis unfolding sel True by (simp add: orNull_def)
  next
    case False
    with b have "0 < nat kI" "nat kI < 28" by simp_all
    from JONGSEONG_nth_nonempty [OF this] False b show ?thesis
      unfolding sel by (simp add: tbl_get_nth length_tables orNull_def)
  qed
  have "SYLLABLE_BASE + (choIdx d * 21 + jungIdx d) * 28 + jongIdx d
          = SYLLABLE_BASE + code"
    unfolding sel using r by simp
  then show "charCodeAt0 ch
      = Some (SYLLABLE_BASE + (choIdx d * 21 + jungIdx d) * 28 + jongIdx d)"
    by (simp add: c0 code_def)
qed

lemma isSyllable_single:
  "isSyllable [c] \<longleftrightarrow> 0xAC00 \<le> uint c \<and> uint c \<le> 0xD7A3"
  by (simp add: isSyllable_def charCodeAt0_def SYLLABLE_BASE_def SYLLABLE_END_def)

lemma compose_of_indices:
  assumes "0 \<le> ci" "ci < 19" "0 \<le> ji" "ji < 21" "0 \<le> ki" "ki < 28"
  shows "compose (CHOSEONG ! nat ci) (JUNGSEONG ! nat ji)
           (if ki = 0 then None else Some (JONGSEONG ! nat ki))
         = Some (fromCharCode (SYLLABLE_BASE + (ci * 21 + ji) * 28 + ki))"
proof -
  have c: "indexOf CHOSEONG (CHOSEONG ! nat ci) = ci"
    using assms indexOf_nth [OF distinct_CHOSEONG, of "nat ci"]
    by (simp add: length_tables)
  have j: "indexOf JUNGSEONG (JUNGSEONG ! nat ji) = ji"
    using assms indexOf_nth [OF distinct_JUNGSEONG, of "nat ji"]
    by (simp add: length_tables)
  show ?thesis
  proof (cases "ki = 0")
    case True
    with c j assms show ?thesis by (simp add: compose_def)
  next
    case False
    with assms have k: "0 < nat ki" "nat ki < 28" by simp_all
    have "indexOf JONGSEONG (JONGSEONG ! nat ki) = ki"
      using assms indexOf_nth [OF distinct_JONGSEONG, of "nat ki"]
      by (simp add: length_tables)
    with c j assms False JONGSEONG_nth_nonempty [OF k] show ?thesis
      by (simp add: compose_def)
  qed
qed

section \<open>The codec: round trip, index safety, unrecognised symbols\<close>

text \<open>
  C1 (round-trip law). For every code point \<open>p\<close> in [0xAC00, 0xD7A3], decomposing the
  one-character string with that code point succeeds, the record's initial and medial
  are table symbols, and composing the record's initial, medial and final (an absent
  final passed as "no final") returns exactly that one-character string.
\<close>

theorem compose_decompose_roundtrip:
  assumes "0xAC00 \<le> uint p" and "uint p \<le> 0xD7A3"
  shows "\<exists>d c j. decompose [p] = Some d \<and> cho d = Some c \<and> jung d = Some j
           \<and> compose c j (jong d) = Some [p]"
proof -
  from assms have "isSyllable [p]" by (simp add: isSyllable_single)
  then obtain d where d: "decompose [p] = Some d"
    using decompose_eq_None_iff [of "[p]"] by (cases "decompose [p]") auto
  note f = decompose_fields [OF d]
  have "compose (CHOSEONG ! nat (choIdx d)) (JUNGSEONG ! nat (jungIdx d)) (jong d)
          = Some (fromCharCode (SYLLABLE_BASE + (choIdx d * 21 + jungIdx d) * 28 + jongIdx d))"
    using compose_of_indices [OF f(2-7)] by (simp add: f(10))
  moreover from f(12) have
    "SYLLABLE_BASE + (choIdx d * 21 + jungIdx d) * 28 + jongIdx d = uint p"
    by (simp add: charCodeAt0_def)
  ultimately have "compose (CHOSEONG ! nat (choIdx d)) (JUNGSEONG ! nat (jungIdx d)) (jong d)
          = Some (fromCharCode (uint p))"
    by (simp only:)
  then have "compose (CHOSEONG ! nat (choIdx d)) (JUNGSEONG ! nat (jungIdx d)) (jong d)
          = Some [p]"
    by (simp add: fromCharCode_def)
  with d f(8,9) show ?thesis by blast
qed

theorem compose_decompose_roundtrip_witness:
  "0xAC00 \<le> uint (0xD55C :: 16 word) \<and> uint (0xD55C :: 16 word) \<le> 0xD7A3
   \<and> (\<exists>d c j. decompose [0xD55C] = Some d \<and> cho d = Some c \<and> jung d = Some j
           \<and> compose c j (jong d) = Some [0xD55C])"
proof -
  have lo: "0xAC00 \<le> uint (0xD55C :: 16 word)" by simp
  have hi: "uint (0xD55C :: 16 word) \<le> 0xD7A3" by simp
  from lo hi compose_decompose_roundtrip [OF lo hi] show ?thesis by blast
qed

text \<open>
  C10 (index safety). For every character whose code point lies in [0xAC00, 0xD7A3],
  \<open>decompose\<close> computes \<open>0 \<le> choIdx < 19\<close>, \<open>0 \<le> jungIdx < 21\<close> and
  \<open>0 \<le> jongIdx < 28\<close>; so each table read is inside its table, the initial and the
  medial are the table symbols at those indices, the final is absent or a table symbol
  (absent exactly when \<open>jongIdx\<close> is zero), and \<open>hasJong\<close> holds exactly when
  \<open>jongIdx\<close> is not zero.
\<close>

theorem decompose_indices_in_bounds:
  assumes "0xAC00 \<le> uint c" and "uint c \<le> 0xD7A3"
  shows "\<exists>d. decompose [c] = Some d
           \<and> 0 \<le> choIdx d \<and> choIdx d < int (length CHOSEONG) \<and> choIdx d < 19
           \<and> 0 \<le> jungIdx d \<and> jungIdx d < int (length JUNGSEONG) \<and> jungIdx d < 21
           \<and> 0 \<le> jongIdx d \<and> jongIdx d < int (length JONGSEONG) \<and> jongIdx d < 28
           \<and> cho d = Some (CHOSEONG ! nat (choIdx d))
           \<and> (\<exists>s \<in> set CHOSEONG. cho d = Some s)
           \<and> jung d = Some (JUNGSEONG ! nat (jungIdx d))
           \<and> (\<exists>s \<in> set JUNGSEONG. jung d = Some s)
           \<and> (jong d = None \<or> (\<exists>s \<in> set JONGSEONG. jong d = Some s))
           \<and> (jong d = None \<longleftrightarrow> jongIdx d = 0)
           \<and> (hasJong d \<longleftrightarrow> jongIdx d \<noteq> 0)"
proof -
  from assms have "isSyllable [c]" by (simp add: isSyllable_single)
  then obtain d where d: "decompose [c] = Some d"
    using decompose_eq_None_iff [of "[c]"] by (cases "decompose [c]") auto
  note f = decompose_fields [OF d]
  have c: "CHOSEONG ! nat (choIdx d) \<in> set CHOSEONG"
    using f(2,3) by (simp add: length_tables)
  have j: "JUNGSEONG ! nat (jungIdx d) \<in> set JUNGSEONG"
    using f(4,5) by (simp add: length_tables)
  have k: "JONGSEONG ! nat (jongIdx d) \<in> set JONGSEONG"
    using f(6,7) by (simp add: length_tables)
  from f(10) k have kk: "jong d = None \<or> (\<exists>s \<in> set JONGSEONG. jong d = Some s)"
    by (cases "jongIdx d = 0") simp_all
  from f(10) have kn: "jong d = None \<longleftrightarrow> jongIdx d = 0"
    by (cases "jongIdx d = 0") simp_all
  from d f c j kk kn show ?thesis by (simp add: length_tables)
qed

theorem decompose_indices_in_bounds_witness:
  "0xAC00 \<le> uint (0xD55C :: 16 word) \<and> uint (0xD55C :: 16 word) \<le> 0xD7A3
   \<and> (\<exists>d. decompose [0xD55C] = Some d
           \<and> 0 \<le> choIdx d \<and> choIdx d < int (length CHOSEONG) \<and> choIdx d < 19
           \<and> 0 \<le> jungIdx d \<and> jungIdx d < int (length JUNGSEONG) \<and> jungIdx d < 21
           \<and> 0 \<le> jongIdx d \<and> jongIdx d < int (length JONGSEONG) \<and> jongIdx d < 28
           \<and> cho d = Some (CHOSEONG ! nat (choIdx d))
           \<and> (\<exists>s \<in> set CHOSEONG. cho d = Some s)
           \<and> jung d = Some (JUNGSEONG ! nat (jungIdx d))
           \<and> (\<exists>s \<in> set JUNGSEONG. jung d = Some s)
           \<and> (jong d = None \<or> (\<exists>s \<in> set JONGSEONG. jong d = Some s))
           \<and> (jong d = None \<longleftrightarrow> jongIdx d = 0)
           \<and> (hasJong d \<longleftrightarrow> jongIdx d \<noteq> 0))"
proof -
  have lo: "0xAC00 \<le> uint (0xD55C :: 16 word)" by simp
  have hi: "uint (0xD55C :: 16 word) \<le> 0xD7A3" by simp
  from lo hi decompose_indices_in_bounds [OF lo hi] show ?thesis by blast
qed

text \<open>
  C2, as stated, fails: with a recognised initial and medial, a non-empty final that is
  not in the final table does not get index 0; \<open>indexOf\<close> gives \<open>-1\<close> and the guard
  \<open>jongIdx < 0\<close> makes \<open>compose\<close> return absent. Here the final is the letter "x".
\<close>

theorem compose_unknown_final_counterexample:
  "[0x3131] \<in> set CHOSEONG \<and> [0x314F] \<in> set JUNGSEONG
   \<and> [0x0078] \<noteq> ([] :: jsstring) \<and> [0x0078] \<notin> set JONGSEONG
   \<and> compose [0x3131] [0x314F] (Some [0x0078]) = None"
  by (simp add: compose_def CHOSEONG_def JUNGSEONG_def JONGSEONG_def Let_def)

text \<open>
  C2, amended. \<open>compose\<close> returns absent exactly when the initial is not in the initial
  table, or the medial is not in the medial table, or the final is a non-empty string
  that is not in the final table. An omitted or empty final has index 0, and in every
  other case the result is the character with code point
  \<open>0xAC00 + (initialIndex * 21 + medialIndex) * 28 + finalIndex\<close>.
\<close>

theorem compose_absent_iff:
  "(compose c j f = None \<longleftrightarrow>
      c \<notin> set CHOSEONG \<or> j \<notin> set JUNGSEONG
      \<or> (\<exists>s. f = Some s \<and> s \<noteq> [] \<and> s \<notin> set JONGSEONG))
   \<and> (c \<in> set CHOSEONG \<and> j \<in> set JUNGSEONG \<and> (f = None \<or> f = Some []) \<longrightarrow>
        compose c j f
          = Some (fromCharCode (SYLLABLE_BASE
                    + (indexOf CHOSEONG c * 21 + indexOf JUNGSEONG j) * 28 + 0)))
   \<and> (\<forall>s. c \<in> set CHOSEONG \<and> j \<in> set JUNGSEONG \<and> f = Some s \<and> s \<in> set JONGSEONG \<longrightarrow>
        compose c j f
          = Some (fromCharCode (SYLLABLE_BASE
                    + (indexOf CHOSEONG c * 21 + indexOf JUNGSEONG j) * 28
                    + indexOf JONGSEONG s)))"
proof -
  have e: "indexOf JONGSEONG [] = 0" by (simp add: JONGSEONG_def)
  show ?thesis
    using indexOf_neg_iff [of CHOSEONG c] indexOf_neg_iff [of JUNGSEONG j] e
    by (cases f) (auto simp: compose_def Let_def indexOf_neg_iff)
qed

theorem compose_absent_iff_witness:
  "[0x314E] \<in> set CHOSEONG \<and> [0x314F] \<in> set JUNGSEONG \<and> [0x3134] \<in> set JONGSEONG
   \<and> compose [0x314E] [0x314F] (Some [0x3134]) = Some [0xD55C]
   \<and> compose [0x314E] [0x314F] None = Some [0xD558]
   \<and> compose [0x314E] [0x0078] None = None"
  using compose_absent_iff [of "[0x314E]" "[0x314F]" "Some [0x3134]"]
    compose_absent_iff [of "[0x314E]" "[0x314F]" None]
    compose_absent_iff [of "[0x314E]" "[0x0078]" None]
  by (simp add: CHOSEONG_def JUNGSEONG_def JONGSEONG_def fromCharCode_def
      SYLLABLE_BASE_def Let_def)

section \<open>The analyzer loop\<close>

lemma decs_simps:
  "decs [] = []"
  "decs (c # cs) = (case decompose c of None \<Rightarrow> decs cs | Some d \<Rightarrow> d # decs cs)"
  by (simp_all add: decs_def map_filter_simps split: option.splits)

lemma loop_syllables:
  "v_syllables (foldl analyze_step st cs) = v_syllables st @ decs cs"
  by (induction cs arbitrary: st)
     (simp_all add: decs_simps analyze_step_def split: option.splits)

lemma loop_total:
  "v_totalSyllables (foldl analyze_step st cs) = v_totalSyllables st + int (length (decs cs))"
  by (induction cs arbitrary: st)
     (simp_all add: decs_simps analyze_step_def split: option.splits)

lemma loop_withJong:
  "v_withJong (foldl analyze_step st cs)
     = v_withJong st + int (length (filter (\<lambda>d. truthy (jong d)) (decs cs)))"
  by (induction cs arbitrary: st)
     (simp_all add: decs_simps analyze_step_def split: option.splits)

lemma loop_bright:
  "v_brightVowels (foldl analyze_step st cs)
     = v_brightVowels st
       + int (length (filter (\<lambda>d. array_includes VOWEL_bright (jung d)) (decs cs)))"
  by (induction cs arbitrary: st)
     (simp_all add: decs_simps analyze_step_def split: option.splits)

lemma loop_dark:
  "v_darkVowels (foldl analyze_step st cs)
     = v_darkVowels st
       + int (length (filter (\<lambda>d. \<not> array_includes VOWEL_bright (jung d)
                                   \<and> array_includes VOWEL_dark (jung d)) (decs cs)))"
  by (induction cs arbitrary: st)
     (simp_all add: decs_simps analyze_step_def split: option.splits)

lemma loop_neutral:
  "v_neutralVowels (foldl analyze_step st cs)
     = v_neutralVowels st
       + int (length (filter (\<lambda>d. \<not> array_includes VOWEL_bright (jung d)
                                   \<and> \<not> array_includes VOWEL_dark (jung d)) (decs cs)))"
  by (induction cs arbitrary: st)
     (simp_all add: decs_simps analyze_step_def split: option.splits)

lemma loop_choFreq:
  "v_choFreq (foldl analyze_step st cs)
     = foldl freq_incr (v_choFreq st) (map (\<lambda>d. propertyKey (cho d)) (decs cs))"
  by (induction cs arbitrary: st)
     (simp_all add: decs_simps analyze_step_def split: option.splits)

lemma loop_jungFreq:
  "v_jungFreq (foldl analyze_step st cs)
     = foldl freq_incr (v_jungFreq st) (map (\<lambda>d. propertyKey (jung d)) (decs cs))"
  by (induction cs arbitrary: st)
     (simp_all add: decs_simps analyze_step_def split: option.splits)

lemma loop_jongFreq:
  "v_jongFreq (foldl analyze_step st cs)
     = foldl freq_incr (v_jongFreq st)
         (map (\<lambda>d. propertyKey (jong d)) (filter (\<lambda>d. truthy (jong d)) (decs cs)))"
  by (induction cs arbitrary: st)
     (simp_all add: decs_simps analyze_step_def split: option.splits)

lemma three_way_count:
  "int (length (filter P xs)) + int (length (filter (\<lambda>x. \<not> P x \<and> Q x) xs))
     + int (length (filter (\<lambda>x. \<not> P x \<and> \<not> Q x) xs)) = int (length xs)"
  by (induction xs) auto

lemma analyze_fields:
  "syllables (analyze text) = decs (chars text)"
  "totalSyllables (analyze text) = int (length (decs (chars text)))"
  "withJong (analyze text) = int (length (filter (\<lambda>d. truthy (jong d)) (decs (chars text))))"
  "withoutJong (analyze text) = totalSyllables (analyze text) - withJong (analyze text)"
  "bright (vowelHarmony (analyze text))
     = int (length (filter (\<lambda>d. array_includes VOWEL_bright (jung d)) (decs (chars text))))"
  "dark (vowelHarmony (analyze text))
     = int (length (filter (\<lambda>d. \<not> array_includes VOWEL_bright (jung d)
                                   \<and> array_includes VOWEL_dark (jung d)) (decs (chars text))))"
  "neutral (vowelHarmony (analyze text))
     = int (length (filter (\<lambda>d. \<not> array_includes VOWEL_bright (jung d)
                                   \<and> \<not> array_includes VOWEL_dark (jung d)) (decs (chars text))))"
  "choFreq (analyze text)
     = sortByValue (foldl freq_incr [] (map (\<lambda>d. propertyKey (cho d)) (decs (chars text))))"
  "jungFreq (analyze text)
     = sortByValue (foldl freq_incr [] (map (\<lambda>d. propertyKey (jung d)) (decs (chars text))))"
  "jongFreq (analyze text)
     = sortByValue (foldl freq_incr []
         (map (\<lambda>d. propertyKey (jong d)) (filter (\<lambda>d. truthy (jong d)) (decs (chars text)))))"
  by (simp_all add: analyze_def Let_def loop_syllables loop_total loop_withJong loop_bright
      loop_dark loop_neutral loop_choFreq loop_jungFreq loop_jongFreq analyze_init_def)

text \<open>
  C4 (count conservation). For every text, the result of \<open>analyze\<close> has
  \<open>withJong + withoutJong = totalSyllables\<close>, and its bright, dark and neutral counts
  add up to \<open>totalSyllables\<close>.
\<close>

theorem count_conservation:
  "withJong (analyze text) + withoutJong (analyze text) = totalSyllables (analyze text)
   \<and> bright (vowelHarmony (analyze text)) + dark (vowelHarmony (analyze text))
       + neutral (vowelHarmony (analyze text)) = totalSyllables (analyze text)"
  by (simp only: analyze_fields three_way_count) simp

section \<open>Frequency tables: order of the entries\<close>

lemma indexOf_append_in: "x \<in> set xs \<Longrightarrow> indexOf (xs @ ys) x = indexOf xs x"
  by (induction xs) (auto simp: Let_def)

lemma indexOf_append_notin: "x \<notin> set xs \<Longrightarrow> indexOf (xs @ [x]) x = int (length xs)"
  by (induction xs) (auto simp: Let_def)

lemma indexOf_lt_length: "x \<in> set xs \<Longrightarrow> indexOf xs x < int (length xs)"
  by (induction xs) (auto simp: Let_def)

lemma keys_obj_set_old: "k \<in> fst ` set f \<Longrightarrow> map fst (obj_set f k v) = map fst f"
  by (induction f) force+

lemma keys_obj_set_new: "k \<notin> fst ` set f \<Longrightarrow> map fst (obj_set f k v) = map fst f @ [k]"
  by (induction f) auto

lemma keys_obj_set:
  "map fst (obj_set f k v) = (if k \<in> fst ` set f then map fst f else map fst f @ [k])"
  by (simp add: keys_obj_set_old keys_obj_set_new)

lemma keys_freq_incr:
  "map fst (freq_incr f k) = (if k \<in> fst ` set f then map fst f else map fst f @ [k])"
  by (simp only: freq_incr_def keys_obj_set)

lemma keys_counting:
  "set (map fst (foldl freq_incr [] ks)) = set ks
   \<and> distinct (map fst (foldl freq_incr [] ks))
   \<and> sorted_wrt (\<lambda>a b. indexOf ks a < indexOf ks b) (map fst (foldl freq_incr [] ks))"
proof (induction ks rule: rev_induct)
  case Nil
  show ?case by simp
next
  case (snoc k ks)
  let ?f = "foldl freq_incr [] ks"
  from snoc have s: "set (map fst ?f) = set ks" and d: "distinct (map fst ?f)"
    and o: "sorted_wrt (\<lambda>a b. indexOf ks a < indexOf ks b) (map fst ?f)" by simp_all
  have o': "sorted_wrt (\<lambda>a b. indexOf (ks @ [k]) a < indexOf (ks @ [k]) b) (map fst ?f)"
    using o s by (auto elim!: sorted_wrt_mono_rel [rotated] simp: indexOf_append_in)
  show ?case
  proof (cases "k \<in> set ks")
    case True
    with s have "map fst (freq_incr ?f k) = map fst ?f" by (simp add: keys_freq_incr)
    with s d o' True show ?thesis by auto
  next
    case False
    with s have e: "map fst (freq_incr ?f k) = map fst ?f @ [k]"
      by (simp add: keys_freq_incr)
    have "\<forall>x \<in> set ks. indexOf (ks @ [k]) x < indexOf (ks @ [k]) k"
      using False by (simp add: indexOf_append_in indexOf_append_notin indexOf_lt_length)
    with s d o' False e show ?thesis by (auto simp: sorted_wrt_append)
  qed
qed

lemma set_insert_by: "set (insert_by cmp x ys) = insert x (set ys)"
  by (induction ys) auto

lemma set_js_sort: "set (js_sort cmp xs) = set xs"
  by (induction xs) (simp_all add: js_sort_def set_insert_by)

lemma insert_by_sorted:
  fixes c :: "'a \<Rightarrow> int"
  assumes "sorted_wrt (\<lambda>a b. c b < c a \<or> (c a = c b \<and> P a b)) ys"
    and "\<forall>y \<in> set ys. P x y"
  shows "sorted_wrt (\<lambda>a b. c b < c a \<or> (c a = c b \<and> P a b))
           (insert_by (\<lambda>a b. c b - c a) x ys)"
  using assms
proof (induction ys)
  case Nil
  show ?case by simp
next
  case (Cons y ys)
  show ?case
  proof (cases "c y - c x \<le> 0")
    case True
    have "\<forall>z \<in> set (y # ys). c z < c x \<or> (c x = c z \<and> P x z)"
      using True Cons.prems by fastforce
    with True Cons.prems show ?thesis by simp
  next
    case False
    with Cons show ?thesis by (auto simp: set_insert_by)
  qed
qed

lemma js_sort_sorted:
  fixes c :: "'a \<Rightarrow> int"
  assumes "sorted_wrt P xs"
  shows "sorted_wrt (\<lambda>a b. c b < c a \<or> (c a = c b \<and> P a b))
           (js_sort (\<lambda>a b. c b - c a) xs)"
  using assms
proof (induction xs)
  case Nil
  show ?case by (simp add: js_sort_def)
next
  case (Cons x xs)
  then have "sorted_wrt (\<lambda>a b. c b < c a \<or> (c a = c b \<and> P a b))
           (js_sort (\<lambda>a b. c b - c a) xs)"
    and "\<forall>y \<in> set (js_sort (\<lambda>a b. c b - c a) xs). P x y"
    by (simp_all add: set_js_sort)
  from insert_by_sorted [of c P, OF this] show ?case by (simp add: js_sort_def)
qed

lemma sortByValue_counting:
  "sorted_desc_ties_by (indexOf ks) (sortByValue (foldl freq_incr [] ks))"
proof -
  have "sorted_wrt (\<lambda>a b. indexOf ks (fst a) < indexOf ks (fst b)) (foldl freq_incr [] ks)"
    using keys_counting [of ks] by (simp add: sorted_wrt_map)
  from js_sort_sorted [of _ _ snd, OF this] show ?thesis
    by (simp add: sorted_desc_ties_by_def sortByValue_def)
qed

lemma sorted_desc_ties_by_desc:
  "sorted_desc_ties_by pos f \<Longrightarrow> sorted_wrt (\<lambda>a b. snd b \<le> snd a) f"
  unfolding sorted_desc_ties_by_def
  by (erule sorted_wrt_mono_rel [rotated]) auto

text \<open>
  C3, as stated, fails in its tie-break. In the two-syllable text U+B098 U+AC00 the
  initials U+3134 and U+3131 both occur once; \<open>choFreq\<close> lists U+3134 first, as
  the text does, although U+3131 comes first in the initial table.
\<close>

theorem freq_ties_table_order_counterexample:
  "choFreq (analyze [0xB098, 0xAC00]) = [([0x3134], 1), ([0x3131], 1)]
   \<and> \<not> sorted_desc_ties_by (indexOf CHOSEONG) (choFreq (analyze [0xB098, 0xAC00]))"
  by code_simp

text \<open>
  C3, amended. For every text, the initial, medial and final frequency lists returned by
  \<open>analyze\<close> are in descending order of count, and entries with equal counts are
  in the order in which their symbols first occur in the text (for finals: among the
  syllables that have a final). The position of a symbol is its first index in the
  sequence of symbols of the decomposed characters of the text.
\<close>

theorem freq_sorted_first_appearance:
  "sorted_wrt (\<lambda>a b. snd b \<le> snd a) (choFreq (analyze text))
   \<and> sorted_wrt (\<lambda>a b. snd b \<le> snd a) (jungFreq (analyze text))
   \<and> sorted_wrt (\<lambda>a b. snd b \<le> snd a) (jongFreq (analyze text))
   \<and> sorted_desc_ties_by
        (indexOf (map (\<lambda>d. propertyKey (cho d)) (decs (chars text))))
        (choFreq (analyze text))
   \<and> sorted_desc_ties_by
        (indexOf (map (\<lambda>d. propertyKey (jung d)) (decs (chars text))))
        (jungFreq (analyze text))
   \<and> sorted_desc_ties_by
        (indexOf (map (\<lambda>d. propertyKey (jong d))
                   (filter (\<lambda>d. truthy (jong d)) (decs (chars text)))))
        (jongFreq (analyze text))"
proof -
  let ?c = "map (\<lambda>d. propertyKey (cho d)) (decs (chars text))"
  let ?j = "map (\<lambda>d. propertyKey (jung d)) (decs (chars text))"
  let ?k = "map (\<lambda>d. propertyKey (jong d))
              (filter (\<lambda>d. truthy (jong d)) (decs (chars text)))"
  have c: "sorted_desc_ties_by (indexOf ?c) (choFreq (analyze text))"
    using sortByValue_counting [of ?c] by (simp add: analyze_fields)
  have j: "sorted_desc_ties_by (indexOf ?j) (jungFreq (analyze text))"
    using sortByValue_counting [of ?j] by (simp add: analyze_fields)
  have k: "sorted_desc_ties_by (indexOf ?k) (jongFreq (analyze text))"
    using sortByValue_counting [of ?k] by (simp add: analyze_fields)
  from c j k sorted_desc_ties_by_desc [OF c] sorted_desc_ties_by_desc [OF j]
    sorted_desc_ties_by_desc [OF k]
  show ?thesis by blast
qed

theorem freq_sorted_first_appearance_witness:
  "choFreq (analyze [0xB098, 0xAC00]) = [([0x3134], 1), ([0x3131], 1)]
   \<and> map (\<lambda>d. propertyKey (cho d)) (decs (chars [0xB098, 0xAC00]))
       = [[0x3134], [0x3131]]
   \<and> sorted_desc_ties_by
        (indexOf (map (\<lambda>d. propertyKey (cho d)) (decs (chars [0xB098, 0xAC00]))))
        (choFreq (analyze [0xB098, 0xAC00]))"
proof -
  have a: "choFreq (analyze [0xB098, 0xAC00]) = [([0x3134], 1), ([0x3131], 1)]"
    by code_simp
  have b: "map (\<lambda>d. propertyKey (cho d)) (decs (chars [0xB098, 0xAC00]))
       = [[0x3134], [0x3131]]"
    by code_simp
  from a b freq_sorted_first_appearance [of "[0xB098, 0xAC00]"] show ?thesis by blast
qed

section \<open>Rhyme groups\<close>

lemma decs_mem: "s \<in> set (decs cs) \<Longrightarrow> \<exists>c. decompose c = Some s"
  by (induction cs) (auto simp: decs_simps split: option.splits)

lemma obj_set_new: "k \<notin> fst ` set f \<Longrightarrow> obj_set f k v = f @ [(k, v)]"
  by (induction f) auto

lemma map_of_obj_set: "map_of (obj_set f k v) = (map_of f)(k \<mapsto> v)"
  by (induction f) auto

lemma rhyme_step_eq:
  "rhyme_step e s =
     obj_set e (rhyme_key s)
       ((case map_of e (rhyme_key s) of None \<Rightarrow> [] | Some v \<Rightarrow> v) @ [syllable s])"
proof (cases "map_of e (rhyme_key s)")
  case None
  then have n: "rhyme_key s \<notin> fst ` set e" by (simp add: map_of_eq_None_iff)
  have a: "obj_set e (rhyme_key s) v = e @ [(rhyme_key s, v)]" for v
    using n by (rule obj_set_new)
  have b: "map_of (e @ [(rhyme_key s, [])]) (rhyme_key s) = Some []"
    using None by (simp add: map_add_def)
  have c: "obj_set (e @ [(rhyme_key s, [])]) (rhyme_key s) [syllable s]
          = e @ [(rhyme_key s, [syllable s])]"
    using n by (induction e) auto
  show ?thesis
    unfolding rhyme_step_def Let_def None option.case a b using c by simp
next
  case (Some v)
  then show ?thesis by (simp add: rhyme_step_def Let_def)
qed

lemma keys_rhyme_step:
  "map fst (rhyme_step e s)
     = (if rhyme_key s \<in> fst ` set e then map fst e else map fst e @ [rhyme_key s])"
  by (simp only: rhyme_step_eq keys_obj_set)

lemma map_of_rhyme_step:
  "map_of (rhyme_step e s)
     = (map_of e)(rhyme_key s \<mapsto>
          (case map_of e (rhyme_key s) of None \<Rightarrow> [] | Some v \<Rightarrow> v) @ [syllable s])"
  by (simp only: rhyme_step_eq map_of_obj_set)

lemma rhyme_loop:
  "distinct (map fst (foldl rhyme_step [] syls))
   \<and> (\<forall>k. map_of (foldl rhyme_step [] syls) k
          = (if filter (\<lambda>s. rhyme_key s = k) syls = [] then None
             else Some (map syllable (filter (\<lambda>s. rhyme_key s = k) syls))))"
proof (induction syls rule: rev_induct)
  case Nil
  show ?case by simp
next
  case (snoc s syls)
  let ?e = "foldl rhyme_step [] syls"
  from snoc have d: "distinct (map fst ?e)"
    and m: "\<And>k. map_of ?e k
          = (if filter (\<lambda>s. rhyme_key s = k) syls = [] then None
             else Some (map syllable (filter (\<lambda>s. rhyme_key s = k) syls)))"
    by simp_all
  have "distinct (map fst (rhyme_step ?e s))"
    using d by (simp add: keys_rhyme_step)
  moreover have "map_of (rhyme_step ?e s) k
          = (if filter (\<lambda>s. rhyme_key s = k) (syls @ [s]) = [] then None
             else Some (map syllable (filter (\<lambda>s. rhyme_key s = k) (syls @ [s]))))" for k
    by (simp add: map_of_rhyme_step m)
  ultimately show ?case by simp
qed

lemma distinct_insert_by:
  "distinct (map f (insert_by cmp x ys)) \<longleftrightarrow> f x \<notin> f ` set ys \<and> distinct (map f ys)"
  by (induction ys) (auto simp: set_insert_by)

lemma distinct_js_sort: "distinct (map f (js_sort cmp xs)) \<longleftrightarrow> distinct (map f xs)"
  by (induction xs) (simp_all add: js_sort_def distinct_insert_by set_js_sort [unfolded js_sort_def])

lemma sorted_wrt_True: "sorted_wrt (\<lambda>_ _. True) xs"
  by (induction xs) simp_all

lemma js_sort_desc:
  fixes c :: "'a \<Rightarrow> int"
  shows "sorted_wrt (\<lambda>a b. c b \<le> c a) (js_sort (\<lambda>a b. c b - c a) xs)"
  using js_sort_sorted [of "\<lambda>_ _. True" xs c, OF sorted_wrt_True]
  by (rule sorted_wrt_mono_rel [rotated]) auto

lemma findRhymes_set:
  "(k, v) \<in> set (findRhymes text) \<longleftrightarrow> v = rhyme_group text k \<and> 2 \<le> length v"
proof -
  let ?e = "foldl rhyme_step [] (decs (chars text))"
  note l = rhyme_loop [of "decs (chars text)"]
  from l have d: "distinct (map fst ?e)" by blast
  from l have m: "map_of ?e k = (if rhyme_group text k = [] then None
      else Some (rhyme_group text k))"
    by (simp add: rhyme_group_def)
  have "set (findRhymes text) = {p \<in> set ?e. 1 < length (snd p)}"
    by (simp add: findRhymes_def Let_def set_js_sort analyze_fields case_prod_unfold)
  then have "(k, v) \<in> set (findRhymes text) \<longleftrightarrow> (k, v) \<in> set ?e \<and> 2 \<le> length v"
    by auto
  also have "(k, v) \<in> set ?e \<longleftrightarrow> map_of ?e k = Some v"
    by (simp only: map_of_eq_Some_iff [OF d])
  finally show ?thesis unfolding m by (cases "rhyme_group text k = []") auto
qed

lemma rhyme_key_symbols:
  assumes "s \<in> set (decs cs)"
  shows "rhyme_key s = JUNGSEONG ! nat (jungIdx s) @ JONGSEONG ! nat (jongIdx s)"
proof -
  from decs_mem [OF assms] obtain c where c: "decompose c = Some s" ..
  note f = decompose_fields [OF c]
  show ?thesis
  proof (cases "jongIdx s = 0")
    case True
    then show ?thesis
      by (simp add: rhyme_key_def f(9,10) truthy_def propertyKey_def JONGSEONG_def)
  next
    case False
    with f(6,7) have "0 < nat (jongIdx s)" "nat (jongIdx s) < 28" by simp_all
    from JONGSEONG_nth_nonempty [OF this] False show ?thesis
      by (simp add: rhyme_key_def f(9,10) truthy_def propertyKey_def)
  qed
qed

text \<open>
  C7. For every text: the ending key of a decomposed syllable is its medial symbol
  followed by its final symbol (the empty string when there is no final); each entry
  of \<open>findRhymes\<close> pairs a key with all syllables of the text that have this key,
  duplicates included and in order of appearance, and has at least two of them; the
  keys of the result are exactly the keys shared by at least two syllables, each once;
  the entries are in descending order of group size. For the text U+C0B0 U+AC04 U+B9CC
  the result is the single key U+314F U+3134 with these three syllables.
\<close>

theorem findRhymes_groups:
  "(\<forall>s \<in> set (decs (chars text)).
      rhyme_key s = JUNGSEONG ! nat (jungIdx s) @ JONGSEONG ! nat (jongIdx s))
   \<and> (\<forall>(k, v) \<in> set (findRhymes text). v = rhyme_group text k \<and> 2 \<le> length v)
   \<and> fst ` set (findRhymes text) = {k. 2 \<le> length (rhyme_group text k)}
   \<and> distinct (map fst (findRhymes text))
   \<and> sorted_wrt (\<lambda>a b. length (snd b) \<le> length (snd a)) (findRhymes text)
   \<and> findRhymes [0xC0B0, 0xAC04, 0xB9CC]
       = [([0x314F, 0x3134], [[0xC0B0], [0xAC04], [0xB9CC]])]"
proof (intro conjI)
  show "\<forall>s \<in> set (decs (chars text)).
      rhyme_key s = JUNGSEONG ! nat (jungIdx s) @ JONGSEONG ! nat (jongIdx s)"
    using rhyme_key_symbols by blast
  show "\<forall>(k, v) \<in> set (findRhymes text). v = rhyme_group text k \<and> 2 \<le> length v"
    by (auto simp: findRhymes_set)
  show "fst ` set (findRhymes text) = {k. 2 \<le> length (rhyme_group text k)}"
  proof (rule set_eqI)
    fix k
    have "k \<in> fst ` set (findRhymes text) \<longleftrightarrow> (\<exists>v. (k, v) \<in> set (findRhymes text))"
      by (simp add: image_iff) (metis fst_conv prod.collapse)
    also have "\<dots> \<longleftrightarrow> 2 \<le> length (rhyme_group text k)"
      by (simp only: findRhymes_set) blast
    finally show "k \<in> fst ` set (findRhymes text)
        \<longleftrightarrow> k \<in> {k. 2 \<le> length (rhyme_group text k)}" by simp
  qed
  show "distinct (map fst (findRhymes text))"
    using rhyme_loop [of "decs (chars text)"]
    by (simp add: findRhymes_def Let_def distinct_js_sort distinct_map_filter analyze_fields)
  show "sorted_wrt (\<lambda>a b. length (snd b) \<le> length (snd a)) (findRhymes text)"
    using js_sort_desc [of "\<lambda>e. int (length (snd e))"]
    by (simp add: findRhymes_def Let_def)
  show "findRhymes [0xC0B0, 0xAC04, 0xB9CC]
       = [([0x314F, 0x3134], [[0xC0B0], [0xAC04], [0xB9CC]])]"
    by code_simp
qed

theorem findRhymes_groups_witness:
  "([0x314F, 0x3134], [[0xC0B0], [0xAC04], [0xB9CC]]) \<in> set (findRhymes [0xC0B0, 0xAC04, 0xB9CC])
   \<and> [[0xC0B0], [0xAC04], [0xB9CC]] = rhyme_group [0xC0B0, 0xAC04, 0xB9CC] [0x314F, 0x3134]
   \<and> 2 \<le> length [[0xC0B0] :: jsstring, [0xAC04], [0xB9CC]]"
proof -
  note t = findRhymes_groups [of "[0xC0B0, 0xAC04, 0xB9CC]"]
  from t have e: "findRhymes [0xC0B0, 0xAC04, 0xB9CC]
       = [([0x314F, 0x3134], [[0xC0B0], [0xAC04], [0xB9CC]])]"
    by (elim conjE)
  have m: "([0x314F, 0x3134], [[0xC0B0], [0xAC04], [0xB9CC]])
      \<in> set (findRhymes [0xC0B0, 0xAC04, 0xB9CC])"
    unfolding e by (rule list.set_intros)
  from t have a: "\<forall>(k, v) \<in> set (findRhymes [0xC0B0, 0xAC04, 0xB9CC]).
      v = rhyme_group [0xC0B0, 0xAC04, 0xB9CC] k \<and> 2 \<le> length v"
    by (elim conjE)
  from bspec [OF a m] have
    "[[0xC0B0], [0xAC04], [0xB9CC]] = rhyme_group [0xC0B0, 0xAC04, 0xB9CC] [0x314F, 0x3134]
     \<and> 2 \<le> length [[0xC0B0] :: jsstring, [0xAC04], [0xB9CC]]"
    unfolding prod.case .
  with m show ?thesis by (intro conjI) (elim conjE, assumption)+
qed

section \<open>Harmony patterns\<close>

lemma vowel_partition:
  "set JUNGSEONG = set VOWEL_bright \<union> set VOWEL_dark \<union> set VOWEL_neutral"
  by (simp add: JUNGSEONG_def VOWEL_bright_def VOWEL_dark_def VOWEL_neutral_def) blast

lemma pattern_loop:
  "foldl pattern_step p cs
     = p @ map (\<lambda>d. if array_includes VOWEL_bright (jung d) then [0x002B]
                     else if array_includes VOWEL_dark (jung d) then [0x002D]
                     else [0x00B7]) (decs cs)"
  by (induction cs arbitrary: p)
     (simp_all add: decs_simps pattern_step_def split: option.splits)

lemma word_loop:
  "foldl word_step acc ws
     = acc @ map (\<lambda>w. (w, concat (foldl pattern_step [] (chars w))))
               (filter (\<lambda>w. decs (chars w) \<noteq> []) ws)"
  by (induction ws arbitrary: acc) (simp_all add: word_step_def Let_def pattern_loop)

lemma pattern_symbols:
  "list_all2 harmony_symbol ds
     (concat (map (\<lambda>d. if array_includes VOWEL_bright (jung d) then [0x002B]
                     else if array_includes VOWEL_dark (jung d) then [0x002D]
                     else [0x00B7]) ds))"
  if "\<forall>d \<in> set ds. \<exists>c. decompose c = Some d"
  using that
proof (induction ds)
  case Nil
  show ?case by simp
next
  case (Cons d ds)
  then obtain c where c: "decompose c = Some d" by auto
  note f = decompose_fields [OF c]
  have "JUNGSEONG ! nat (jungIdx d) \<in> set JUNGSEONG"
    using f(4,5) by (simp add: length_tables)
  then have "harmony_symbol d
     (if array_includes VOWEL_bright (jung d) then 0x002B
      else if array_includes VOWEL_dark (jung d) then 0x002D else 0x00B7)"
    by (auto simp: harmony_symbol_def array_includes_def f(9) vowel_partition)
  with Cons show ?case by (auto split: if_splits)
qed

lemma filter_dropWhile_neg: "filter (\<lambda>x. \<not> P x) (dropWhile P xs) = filter (\<lambda>x. \<not> P x) xs"
  by (induction xs) auto

lemma split_ws_concat:
  "concat (split_ws cur cs) = cur @ filter (\<lambda>c. \<not> isWhiteSpace c) cs"
  by (induction cur cs rule: split_ws.induct) (simp_all add: filter_dropWhile_neg)

lemma split_ws_free:
  "\<forall>c \<in> set cur. \<not> isWhiteSpace c \<Longrightarrow>
     \<forall>w \<in> set (split_ws cur cs). \<forall>c \<in> set w. \<not> isWhiteSpace c"
proof (induction cur cs rule: split_ws.induct)
  case (1 cur)
  then show ?case by simp
next
  case (2 cur c cs)
  show ?case
  proof (cases "isWhiteSpace c")
    case True
    from "2.IH"(1) [OF True]
    have "\<forall>w \<in> set (split_ws [] (dropWhile isWhiteSpace cs)). \<forall>c \<in> set w. \<not> isWhiteSpace c"
      by simp
    with True "2.prems" show ?thesis by simp
  next
    case False
    from "2.prems" False have "\<forall>c \<in> set (cur @ [c]). \<not> isWhiteSpace c" by simp
    from "2.IH"(2) [OF False this] False show ?thesis by simp
  qed
qed

lemma split_ws_nonempty: "split_ws cur cs \<noteq> []"
  by (induction cur cs rule: split_ws.induct) simp_all

lemma split_ws_butlast:
  "cur \<noteq> [] \<or> cs = [] \<or> \<not> isWhiteSpace (hd cs) \<Longrightarrow>
     \<forall>w \<in> set (butlast (split_ws cur cs)). w \<noteq> []"
proof (induction cur cs rule: split_ws.induct)
  case (1 cur)
  show ?case by simp
next
  case (2 cur c cs)
  show ?case
  proof (cases "isWhiteSpace c")
    case True
    with "2.prems" have cur: "cur \<noteq> []" by simp
    have "dropWhile isWhiteSpace cs = [] \<or> \<not> isWhiteSpace (hd (dropWhile isWhiteSpace cs))"
      using hd_dropWhile [of isWhiteSpace cs] by blast
    then have "\<forall>w \<in> set (butlast (split_ws [] (dropWhile isWhiteSpace cs))). w \<noteq> []"
      using "2.IH"(1) [OF True] by blast
    with True cur show ?thesis by (simp add: split_ws_nonempty)
  next
    case False
    from "2.IH"(2) [OF False] False show ?thesis by simp
  qed
qed

lemma split_ws_interior:
  "\<forall>w \<in> set (butlast (tl (split_ws [] text))). w \<noteq> []"
proof (cases "text")
  case Nil
  then show ?thesis by simp
next
  case (Cons c cs)
  show ?thesis
  proof (cases "isWhiteSpace c")
    case True
    have "dropWhile isWhiteSpace cs = [] \<or> \<not> isWhiteSpace (hd (dropWhile isWhiteSpace cs))"
      using hd_dropWhile [of isWhiteSpace cs] by blast
    from split_ws_butlast [of "[]", OF disjI2, OF this] True Cons show ?thesis by simp
  next
    case False
    have "\<forall>w \<in> set (butlast (split_ws [c] cs)). w \<noteq> []"
      by (rule split_ws_butlast) simp
    moreover have "set (butlast (tl (split_ws [c] cs))) \<subseteq> set (butlast (split_ws [c] cs))"
      by (simp add: butlast_tl) (metis list.sel(2) list.set_sel(2) subsetI)
    ultimately show ?thesis using False Cons by auto
  qed
qed

lemma split_ws_rebuild:
  "\<exists>seps. length (split_ws cur cs) = length seps + 1
     \<and> (\<forall>s \<in> set seps. s \<noteq> [] \<and> (\<forall>c \<in> set s. isWhiteSpace c))
     \<and> interleave (split_ws cur cs) seps = cur @ cs"
proof (induction cur cs rule: split_ws.induct)
  case (1 cur)
  have "length (split_ws cur []) = length ([] :: jsstring list) + 1
     \<and> (\<forall>s \<in> set ([] :: jsstring list). s \<noteq> [] \<and> (\<forall>c \<in> set s. isWhiteSpace c))
     \<and> interleave (split_ws cur []) [] = cur @ []"
    by simp
  then show ?case by blast
next
  case (2 cur c cs)
  show ?case
  proof (cases "isWhiteSpace c")
    case True
    from "2.IH"(1) [OF True] obtain seps where
      l: "length (split_ws [] (dropWhile isWhiteSpace cs)) = length seps + 1"
      and w: "\<forall>s \<in> set seps. s \<noteq> [] \<and> (\<forall>c \<in> set s. isWhiteSpace c)"
      and i: "interleave (split_ws [] (dropWhile isWhiteSpace cs)) seps
                = [] @ dropWhile isWhiteSpace cs"
      by blast
    let ?s = "c # takeWhile isWhiteSpace cs"
    have "\<forall>x \<in> set ?s. isWhiteSpace x" using True by (auto dest: set_takeWhileD)
    with w have w': "\<forall>s \<in> set (?s # seps). s \<noteq> [] \<and> (\<forall>c \<in> set s. isWhiteSpace c)"
      by simp
    have "interleave (split_ws cur (c # cs)) (?s # seps) = cur @ c # cs"
      using True i by simp
    moreover have "length (split_ws cur (c # cs)) = length (?s # seps) + 1"
      using True l by simp
    ultimately show ?thesis using w' by blast
  next
    case False
    from "2.IH"(2) [OF False] False show ?thesis by simp
  qed
qed

lemma split_ws_splits: "splits_at_whitespace text (split_ws [] text)"
proof -
  from split_ws_rebuild [of "[]" "text"] obtain seps where
    "length (split_ws [] text) = length seps + 1"
    "\<forall>s \<in> set seps. s \<noteq> [] \<and> (\<forall>c \<in> set s. isWhiteSpace c)"
    "interleave (split_ws [] text) seps = text"
    by auto
  moreover have "\<forall>p \<in> set (split_ws [] text). \<forall>c \<in> set p. \<not> isWhiteSpace c"
    by (rule split_ws_free) simp
  moreover note split_ws_interior [of "text"]
  ultimately show ?thesis unfolding splits_at_whitespace_def by blast
qed


lemma split_ws_no_ws:
  "\<forall>c \<in> set p. \<not> isWhiteSpace c \<Longrightarrow> split_ws cur (p @ r) = split_ws (cur @ p) r"
  by (induction p arbitrary: cur) simp_all

lemma dropWhile_ws_run:
  "\<forall>c \<in> set s. isWhiteSpace c \<Longrightarrow> dropWhile isWhiteSpace (s @ r) = dropWhile isWhiteSpace r"
  by (induction s) simp_all

lemma dropWhile_no_ws:
  "\<forall>c \<in> set q. \<not> isWhiteSpace c \<Longrightarrow> q \<noteq> [] \<or> r = [] \<Longrightarrow>
     dropWhile isWhiteSpace (q @ r) = q @ r"
  by (cases q) auto

lemma split_ws_of_interleave:
  assumes "length ps = length seps"
    and "\<forall>s \<in> set seps. s \<noteq> [] \<and> (\<forall>c \<in> set s. isWhiteSpace c)"
    and "\<forall>q \<in> set (p # ps). \<forall>c \<in> set q. \<not> isWhiteSpace c"
    and "\<forall>q \<in> set (butlast ps). q \<noteq> []"
  shows "split_ws cur (interleave (p # ps) seps) = (cur @ p) # ps"
  using assms
proof (induction seps arbitrary: cur p ps)
  case Nil
  then have "ps = []" by simp
  with Nil.prems(3) split_ws_no_ws [of p cur "[]"] show ?case by simp
next
  case (Cons s seps)
  from Cons.prems(1) obtain q qs where ps: "ps = q # qs" and l: "length qs = length seps"
    by (cases ps) auto
  from Cons.prems(2) obtain c s' where s: "s = c # s'" and c: "isWhiteSpace c"
    and s': "\<forall>x \<in> set s'. isWhiteSpace x"
    by (cases s) auto
  from Cons.prems(3) have pfree: "\<forall>c \<in> set p. \<not> isWhiteSpace c"
    and qfree: "\<forall>c \<in> set q. \<not> isWhiteSpace c"
    and rest: "\<forall>x \<in> set (q # qs). \<forall>c \<in> set x. \<not> isWhiteSpace c"
    by (simp_all add: ps)
  from Cons.prems(2) have seps: "\<forall>s \<in> set seps. s \<noteq> [] \<and> (\<forall>c \<in> set s. isWhiteSpace c)"
    by simp
  from Cons.prems(4) have inner: "\<forall>x \<in> set (butlast qs). x \<noteq> []"
    by (auto simp: ps split: if_splits)
  from Cons.prems(4) l have qne: "q \<noteq> [] \<or> seps = []"
    by (cases seps) (auto simp: ps split: if_splits)
  let ?R = "interleave (q # qs) seps"
  have R: "split_ws [] ?R = q # qs"
    using Cons.IH [of qs q "[]", OF l seps rest inner] by simp
  have Rq: "\<exists>r. ?R = q @ r \<and> (q \<noteq> [] \<or> r = [])"
  proof (cases seps)
    case Nil
    with l show ?thesis by simp
  next
    case (Cons t ts)
    with qne show ?thesis by simp
  qed
  then obtain r where r: "?R = q @ r" and qr: "q \<noteq> [] \<or> r = []" by blast
  have d: "dropWhile isWhiteSpace (s' @ ?R) = ?R"
    using dropWhile_ws_run [OF s', of ?R] dropWhile_no_ws [OF qfree qr] by (simp add: r)
  have "split_ws cur (interleave (p # ps) (s # seps)) = split_ws (cur @ p) (s @ ?R)"
    using split_ws_no_ws [OF pfree, of cur "s @ ?R"] by (simp add: ps)
  also have "\<dots> = (cur @ p) # split_ws [] (dropWhile isWhiteSpace (s' @ ?R))"
    using c by (simp add: s)
  also have "\<dots> = (cur @ p) # q # qs" by (simp only: d R)
  finally show ?case by (simp add: ps)
qed

lemma splits_at_whitespace_unique:
  assumes "splits_at_whitespace text pieces"
  shows "pieces = split_ws [] text"
proof -
  from assms obtain seps where l: "length pieces = length seps + 1"
    and w: "\<forall>s \<in> set seps. s \<noteq> [] \<and> (\<forall>c \<in> set s. isWhiteSpace c)"
    and f: "\<forall>p \<in> set pieces. \<forall>c \<in> set p. \<not> isWhiteSpace c"
    and i: "\<forall>p \<in> set (butlast (tl pieces)). p \<noteq> []"
    and t: "interleave pieces seps = text"
    unfolding splits_at_whitespace_def by blast
  from l obtain p ps where p: "pieces = p # ps" and lp: "length ps = length seps"
    by (cases pieces) auto
  from split_ws_of_interleave [OF lp w f [unfolded p] i [unfolded p list.sel], of "[]"]
  show ?thesis by (simp add: p t [symmetric])
qed

text \<open>
  C8. For every text: \<open>vowelHarmonyAnalysis\<close> splits the text at its runs of
  whitespace (the pieces alternate with non-empty whitespace runs to give the text
  back, contain no whitespace, and are empty at most at the two ends; there is one such
  split only), and its words are, in order, the pieces that contain a decomposable
  syllable. No entry has an empty pattern, and the pattern of an entry has one symbol
  for each decomposable syllable of its word, in order: \<open>+\<close> for a bright medial,
  \<open>-\<close> for a dark one, the middle dot for a neutral one. For the text
  U+C544 U+BC84 U+C9C0 the result is the single entry with that word and the pattern
  \<open>+\<close>, \<open>-\<close>, middle dot; followed by a space, a line feed, a tab and the
  syllable U+C9C0, the text gives a second entry, that syllable with the middle dot.
\<close>

theorem vowelHarmonyAnalysis_patterns:
  "splits_at_whitespace text (split_ws [] text)
   \<and> (\<forall>pieces. splits_at_whitespace text pieces \<longrightarrow>
         map fst (vowelHarmonyAnalysis text) = filter (\<lambda>w. decs (chars w) \<noteq> []) pieces)
   \<and> map fst (vowelHarmonyAnalysis text)
     = filter (\<lambda>w. decs (chars w) \<noteq> []) (split_ws [] text)
   \<and> (\<forall>w \<in> set (split_ws [] text). \<forall>c \<in> set w. \<not> isWhiteSpace c)
   \<and> concat (split_ws [] text) = filter (\<lambda>c. \<not> isWhiteSpace c) text
   \<and> (\<forall>w \<in> set (butlast (tl (split_ws [] text))). w \<noteq> [])
   \<and> (\<forall>(w, p) \<in> set (vowelHarmonyAnalysis text).
         p \<noteq> [] \<and> list_all2 harmony_symbol (decs (chars w)) p)
   \<and> vowelHarmonyAnalysis [0xC544, 0xBC84, 0xC9C0]
       = [([0xC544, 0xBC84, 0xC9C0], [0x002B, 0x002D, 0x00B7])]
   \<and> vowelHarmonyAnalysis [0xC544, 0xBC84, 0xC9C0, 0x0020, 0x000A, 0x0009, 0xC9C0]
       = [([0xC544, 0xBC84, 0xC9C0], [0x002B, 0x002D, 0x00B7]), ([0xC9C0], [0x00B7])]"
proof (intro conjI)
  show "splits_at_whitespace text (split_ws [] text)"
    by (rule split_ws_splits)
  show w: "map fst (vowelHarmonyAnalysis text)
     = filter (\<lambda>w. decs (chars w) \<noteq> []) (split_ws [] text)"
    by (simp add: vowelHarmonyAnalysis_def word_loop comp_def)
  show "\<forall>pieces. splits_at_whitespace text pieces \<longrightarrow>
         map fst (vowelHarmonyAnalysis text) = filter (\<lambda>w. decs (chars w) \<noteq> []) pieces"
    using w splits_at_whitespace_unique by blast
  show "\<forall>w \<in> set (split_ws [] text). \<forall>c \<in> set w. \<not> isWhiteSpace c"
    by (rule split_ws_free) simp
  show "concat (split_ws [] text) = filter (\<lambda>c. \<not> isWhiteSpace c) text"
    by (simp add: split_ws_concat)
  show "\<forall>w \<in> set (butlast (tl (split_ws [] text))). w \<noteq> []"
    by (rule split_ws_interior)
  show "\<forall>(w, p) \<in> set (vowelHarmonyAnalysis text).
         p \<noteq> [] \<and> list_all2 harmony_symbol (decs (chars w)) p"
  proof (clarify, intro conjI)
    fix w p
    assume "(w, p) \<in> set (vowelHarmonyAnalysis text)"
    then have ne: "decs (chars w) \<noteq> []"
      and p: "p = concat (foldl pattern_step [] (chars w))"
      by (auto simp: vowelHarmonyAnalysis_def word_loop)
    have a: "list_all2 harmony_symbol (decs (chars w)) p"
      unfolding p pattern_loop append_Nil
      by (rule pattern_symbols) (simp add: decs_mem)
    then show "list_all2 harmony_symbol (decs (chars w)) p" .
    from a ne show "p \<noteq> []" by (auto simp: list_all2_Nil2)
  qed
  show "vowelHarmonyAnalysis [0xC544, 0xBC84, 0xC9C0]
       = [([0xC544, 0xBC84, 0xC9C0], [0x002B, 0x002D, 0x00B7])]"
    by code_simp
  show "vowelHarmonyAnalysis [0xC544, 0xBC84, 0xC9C0, 0x0020, 0x000A, 0x0009, 0xC9C0]
       = [([0xC544, 0xBC84, 0xC9C0], [0x002B, 0x002D, 0x00B7]), ([0xC9C0], [0x00B7])]"
    by code_simp
qed

theorem vowelHarmonyAnalysis_patterns_witness:
  "map fst
        (vowelHarmonyAnalysis [0xC544, 0xBC84, 0xC9C0, 0x0020, 0xC9C0])
      = [[0xC544, 0xBC84, 0xC9C0], [0xC9C0]]
   \<and> ([0xC9C0], [0x00B7]) \<in> set
        (vowelHarmonyAnalysis [0xC544, 0xBC84, 0xC9C0, 0x0020, 0xC9C0])
   \<and> [0xC9C0] \<in> set (split_ws [] [0xC544, 0xBC84, 0xC9C0, 0x0020, 0xC9C0])
   \<and> [0x00B7] \<noteq> ([] :: jsstring)
   \<and> list_all2 harmony_symbol (decs (chars [0xC9C0])) [0x00B7]
   \<and> \<not> isWhiteSpace 0xC9C0"
proof -
  note t = vowelHarmonyAnalysis_patterns [of "[0xC544, 0xBC84, 0xC9C0, 0x0020, 0xC9C0]"]
  have sp: "splits_at_whitespace [0xC544, 0xBC84, 0xC9C0, 0x0020, 0xC9C0]
      [[0xC544, 0xBC84, 0xC9C0], [0xC9C0]]"
    unfolding splits_at_whitespace_def
    by (rule exI [of _ "[[0x0020]]"]) (simp add: isWhiteSpace_def)
  from t have "\<forall>pieces. splits_at_whitespace [0xC544, 0xBC84, 0xC9C0, 0x0020, 0xC9C0] pieces \<longrightarrow>
      map fst
        (vowelHarmonyAnalysis [0xC544, 0xBC84, 0xC9C0, 0x0020, 0xC9C0])
        = filter (\<lambda>w. decs (chars w) \<noteq> []) pieces"
    by (elim conjE)
  with sp have "map fst
        (vowelHarmonyAnalysis [0xC544, 0xBC84, 0xC9C0, 0x0020, 0xC9C0])
      = filter (\<lambda>w. decs (chars w) \<noteq> []) [[0xC544, 0xBC84, 0xC9C0], [0xC9C0]]"
    by blast
  moreover have "filter (\<lambda>w. decs (chars w) \<noteq> []) [[0xC544, 0xBC84, 0xC9C0], [0xC9C0]]
      = [[0xC544, 0xBC84, 0xC9C0], [0xC9C0]]"
    by code_simp
  ultimately have f: "map fst
        (vowelHarmonyAnalysis [0xC544, 0xBC84, 0xC9C0, 0x0020, 0xC9C0])
      = [[0xC544, 0xBC84, 0xC9C0], [0xC9C0]]"
    by (rule trans)
  have m: "([0xC9C0], [0x00B7]) \<in> set
        (vowelHarmonyAnalysis [0xC544, 0xBC84, 0xC9C0, 0x0020, 0xC9C0])"
    by code_simp
  have s: "[0xC9C0] \<in> set (split_ws [] [0xC544, 0xBC84, 0xC9C0, 0x0020, 0xC9C0])"
    by code_simp
  from t have a: "\<forall>(w, p) \<in> set
        (vowelHarmonyAnalysis [0xC544, 0xBC84, 0xC9C0, 0x0020, 0xC9C0]).
         p \<noteq> [] \<and> list_all2 harmony_symbol (decs (chars w)) p"
    by (elim conjE)
  from bspec [OF a m] have b: "[0x00B7] \<noteq> ([] :: jsstring)
     \<and> list_all2 harmony_symbol (decs (chars [0xC9C0])) [0x00B7]"
    unfolding prod.case .
  from t have "\<forall>w \<in> set (split_ws [] [0xC544, 0xBC84, 0xC9C0, 0x0020, 0xC9C0]).
      \<forall>c \<in> set w. \<not> isWhiteSpace c"
    by (elim conjE)
  from bspec [OF this s] have "\<forall>c \<in> set [0xC9C0]. \<not> isWhiteSpace c" .
  then have c: "\<not> isWhiteSpace 0xC9C0" by (rule bspec) (rule list.set_intros)
  from f m s b c show ?thesis by (intro conjI) (elim conjE, assumption)+
qed

section \<open>Fingerprint: profiles and fields\<close>

lemma profile_eq:
  assumes "distinct tbl"
  shows "profile tbl freq n
           = map (\<lambda>c. (c, real_of_int (get_or_zero freq c) / real_of_int n)) tbl"
proof -
  have "distinct tbl \<Longrightarrow> set tbl \<inter> fst ` set p = {} \<Longrightarrow>
      foldl (\<lambda>p c. obj_set p c (g c)) p tbl = p @ map (\<lambda>c. (c, g c)) tbl"
    for p :: "(jsstring \<times> real) list" and g
  proof (induction tbl arbitrary: p)
    case Nil
    show ?case by simp
  next
    case (Cons c tbl)
    from Cons.prems have "c \<notin> fst ` set p" by auto
    then have e: "obj_set p c (g c) = p @ [(c, g c)]" by (rule obj_set_new)
    have "set tbl \<inter> fst ` set (p @ [(c, g c)]) = {}" using Cons.prems by auto
    with Cons.IH [of "p @ [(c, g c)]"] Cons.prems e show ?case by simp
  qed
  from this [of "[]", OF assms] show ?thesis by (simp add: profile_def)
qed

lemma get_or_zero_map:
  "distinct tbl \<Longrightarrow> get_or_zero (map (\<lambda>c. (c, g c)) tbl) k
      = (if k \<in> set tbl then g k else 0)"
  by (induction tbl) (auto simp: get_or_zero_def)

lemma analyze_jongRatio:
  "jongRatio (analyze text)
     = (if totalSyllables (analyze text) \<noteq> 0
        then real_of_int (withJong (analyze text)) / real_of_int (totalSyllables (analyze text))
        else 0)"
  by (simp add: analyze_def Let_def)

lemma fingerprint_eq_None_iff:
  "fingerprint text = None \<longleftrightarrow> decs (chars text) = []"
  by (simp add: fingerprint_def Let_def analyze_fields)

lemma fingerprint_fields:
  assumes "fingerprint text = Some fp"
  shows "brightness fp
      = js_round (real_of_int (bright (vowelHarmony (analyze text)) - dark (vowelHarmony (analyze text)))
          / real_of_int (if bright (vowelHarmony (analyze text)) + dark (vowelHarmony (analyze text)) \<noteq> 0
                         then bright (vowelHarmony (analyze text)) + dark (vowelHarmony (analyze text))
                         else 1)) 3"
    and "weight fp = js_round (jongRatio (analyze text)) 3"
    and "rhythmRegularity fp
      = (let lens = lineLengths text;
             a = (if length lens \<noteq> 0
                  then real_of_int (foldl (\<lambda>a b. a + b) 0 lens) / real (length lens) else 0)
         in js_round (if a > 0
           then 1 - min 1 (sqrt (if length lens > 1
                   then foldl (\<lambda>sum n. sum + (real_of_int n - a) ^ 2) 0 lens / real (length lens)
                   else 0) / a)
           else 0) 3)"
    and "consonantDiversity fp
      = js_round (if log 2 (real (length CHOSEONG)) > 0
          then shannonEntropy (filter (\<lambda>v. v > 0)
                 (map snd (profile CHOSEONG (choFreq (analyze text)) (totalSyllables (analyze text)))))
               / log 2 (real (length CHOSEONG))
          else 0) 3"
    and "vowelDiversity fp
      = js_round (if log 2 (real (length JUNGSEONG)) > 0
          then shannonEntropy (filter (\<lambda>v. v > 0)
                 (map snd (profile JUNGSEONG (jungFreq (analyze text)) (totalSyllables (analyze text)))))
               / log 2 (real (length JUNGSEONG))
          else 0) 3"
    and "choProfile fp = profile CHOSEONG (choFreq (analyze text)) (totalSyllables (analyze text))"
    and "jungProfile fp = profile JUNGSEONG (jungFreq (analyze text)) (totalSyllables (analyze text))"
    and "totalSyllables (analyze text) \<noteq> 0"
proof -
  from assms show t: "totalSyllables (analyze text) \<noteq> 0"
    by (auto simp: fingerprint_def Let_def split: if_splits)
  from assms t have e: "fp = the (fingerprint text)" by simp
  show "brightness fp
      = js_round (real_of_int (bright (vowelHarmony (analyze text)) - dark (vowelHarmony (analyze text)))
          / real_of_int (if bright (vowelHarmony (analyze text)) + dark (vowelHarmony (analyze text)) \<noteq> 0
                         then bright (vowelHarmony (analyze text)) + dark (vowelHarmony (analyze text))
                         else 1)) 3"
    unfolding e fingerprint_def Let_def using t by simp
  show "weight fp = js_round (jongRatio (analyze text)) 3"
    unfolding e fingerprint_def Let_def using t by simp
  show "rhythmRegularity fp
      = (let lens = lineLengths text;
             a = (if length lens \<noteq> 0
                  then real_of_int (foldl (\<lambda>a b. a + b) 0 lens) / real (length lens) else 0)
         in js_round (if a > 0
           then 1 - min 1 (sqrt (if length lens > 1
                   then foldl (\<lambda>sum n. sum + (real_of_int n - a) ^ 2) 0 lens / real (length lens)
                   else 0) / a)
           else 0) 3)"
    unfolding e fingerprint_def Let_def using t by simp
  show "consonantDiversity fp
      = js_round (if log 2 (real (length CHOSEONG)) > 0
          then shannonEntropy (filter (\<lambda>v. v > 0)
                 (map snd (profile CHOSEONG (choFreq (analyze text)) (totalSyllables (analyze text)))))
               / log 2 (real (length CHOSEONG))
          else 0) 3"
    unfolding e fingerprint_def Let_def using t by simp
  show "vowelDiversity fp
      = js_round (if log 2 (real (length JUNGSEONG)) > 0
          then shannonEntropy (filter (\<lambda>v. v > 0)
                 (map snd (profile JUNGSEONG (jungFreq (analyze text)) (totalSyllables (analyze text)))))
               / log 2 (real (length JUNGSEONG))
          else 0) 3"
    unfolding e fingerprint_def Let_def using t by simp
  show "choProfile fp = profile CHOSEONG (choFreq (analyze text)) (totalSyllables (analyze text))"
    unfolding e fingerprint_def Let_def using t by simp
  show "jungProfile fp = profile JUNGSEONG (jungFreq (analyze text)) (totalSyllables (analyze text))"
    unfolding e fingerprint_def Let_def using t by simp
qed


section \<open>A negative similarity\<close>

lemma js_round_exact:
  "js_round 1 3 = 1" "js_round 0 3 = 0" "js_round (- 1) 3 = - 1"
  by (simp_all add: js_round_def)

lemma analyze_A:
  "choFreq (analyze uneven_bright_text) = [([0x3131], 10)]"
  "jungFreq (analyze uneven_bright_text) = [([0x314F], 10)]"
  "totalSyllables (analyze uneven_bright_text) = 10"
  "withJong (analyze uneven_bright_text) = 0"
  "bright (vowelHarmony (analyze uneven_bright_text)) = 10"
  "dark (vowelHarmony (analyze uneven_bright_text)) = 0"
  "lineLengths uneven_bright_text = [1, 1, 1, 1, 6]"
  unfolding uneven_bright_text_def by code_simp+

lemma analyze_B:
  "choFreq (analyze one_dark_syllable) = [([0x3134], 1)]"
  "jungFreq (analyze one_dark_syllable) = [([0x3153], 1)]"
  "totalSyllables (analyze one_dark_syllable) = 1"
  "withJong (analyze one_dark_syllable) = 0"
  "bright (vowelHarmony (analyze one_dark_syllable)) = 0"
  "dark (vowelHarmony (analyze one_dark_syllable)) = 1"
  "lineLengths one_dark_syllable = [1]"
  unfolding one_dark_syllable_def by code_simp+

lemma feature_vector_eq:
  assumes "fingerprint text = Some fp"
  shows "feature_vector fp
     = map (\<lambda>c. real_of_int (get_or_zero (choFreq (analyze text)) c)
                  / real_of_int (totalSyllables (analyze text))) CHOSEONG
       @ map (\<lambda>c. real_of_int (get_or_zero (jungFreq (analyze text)) c)
                  / real_of_int (totalSyllables (analyze text))) JUNGSEONG
       @ [brightness fp, weight fp, rhythmRegularity fp]"
proof -
  note f = fingerprint_fields [OF assms]
  show ?thesis
    unfolding feature_vector_def f(6,7)
      profile_eq [OF distinct_CHOSEONG] profile_eq [OF distinct_JUNGSEONG]
    by (simp add: get_or_zero_map distinct_CHOSEONG distinct_JUNGSEONG)
qed

lemma fingerprint_A:
  assumes "fingerprint uneven_bright_text = Some fp"
  shows "feature_vector fp
     = [1, 0, 0, 0, 0, 0, 0, 0, 0, 0, 0, 0, 0, 0, 0, 0, 0, 0, 0,
        1, 0, 0, 0, 0, 0, 0, 0, 0, 0, 0, 0, 0, 0, 0, 0, 0, 0, 0, 0, 0,
        1, 0, 0]"
    and "brightness fp = 1" and "rhythmRegularity fp = 0"
proof -
  note f = fingerprint_fields [OF assms]
  show b: "brightness fp = 1"
    unfolding f(1) analyze_A by (simp add: js_round_exact)
  have w: "weight fp = 0"
    unfolding f(2) analyze_jongRatio analyze_A by (simp add: js_round_exact)
  show r: "rhythmRegularity fp = 0"
    unfolding f(3) analyze_A Let_def by (simp add: js_round_exact)
  show "feature_vector fp
     = [1, 0, 0, 0, 0, 0, 0, 0, 0, 0, 0, 0, 0, 0, 0, 0, 0, 0, 0,
        1, 0, 0, 0, 0, 0, 0, 0, 0, 0, 0, 0, 0, 0, 0, 0, 0, 0, 0, 0, 0,
        1, 0, 0]"
    unfolding feature_vector_eq [OF assms] analyze_A b w r
    by (simp add: CHOSEONG_def JUNGSEONG_def get_or_zero_def)
qed

lemma fingerprint_B:
  assumes "fingerprint one_dark_syllable = Some fp"
  shows "feature_vector fp
     = [0, 0, 1, 0, 0, 0, 0, 0, 0, 0, 0, 0, 0, 0, 0, 0, 0, 0, 0,
        0, 0, 0, 0, 1, 0, 0, 0, 0, 0, 0, 0, 0, 0, 0, 0, 0, 0, 0, 0, 0,
        - 1, 0, 1]"
    and "brightness fp = - 1" and "rhythmRegularity fp = 1"
proof -
  note f = fingerprint_fields [OF assms]
  show b: "brightness fp = - 1"
    unfolding f(1) analyze_B by (simp add: js_round_exact)
  have w: "weight fp = 0"
    unfolding f(2) analyze_jongRatio analyze_B by (simp add: js_round_exact)
  show r: "rhythmRegularity fp = 1"
    unfolding f(3) analyze_B Let_def by (simp add: js_round_exact)
  show "feature_vector fp
     = [0, 0, 1, 0, 0, 0, 0, 0, 0, 0, 0, 0, 0, 0, 0, 0, 0, 0, 0,
        0, 0, 0, 0, 1, 0, 0, 0, 0, 0, 0, 0, 0, 0, 0, 0, 0, 0, 0, 0, 0,
        - 1, 0, 1]"
    unfolding feature_vector_eq [OF assms] analyze_B b w r
    by (simp add: CHOSEONG_def JUNGSEONG_def get_or_zero_def)
qed

lemma round_cosine_value: "js_round (- 1 / (sqrt 3 * 2)) 4 = - 2887 / 10000"
proof -
  have p: "0 < sqrt 3" by simp
  have lo: "5000 / 2887.5 \<le> sqrt 3" by (rule real_le_rsqrt) (simp add: power2_eq_square)
  have hi: "sqrt 3 < 5000 / 2886.5" by (rule real_less_lsqrt) (simp_all add: power2_eq_square)
  from lo p have a: "5000 / sqrt 3 \<le> 2887.5" by (simp add: field_simps)
  from hi p have b: "2886.5 < 5000 / sqrt 3" by (simp add: field_simps)
  have e: "- 1 / (sqrt 3 * 2) * 10 ^ 4 + 1 / 2 = - (5000 / sqrt 3) + 1 / 2"
    by simp
  have fl: "\<lfloor>- (5000 / sqrt 3) + 1 / 2\<rfloor> = - 2887"
    using a b by (intro floor_unique) simp_all
  have "js_round (- 1 / (sqrt 3 * 2)) 4
      = real_of_int \<lfloor>- 1 / (sqrt 3 * 2) * 10 ^ 4 + 1 / 2\<rfloor> / 10 ^ 4"
    by (simp only: js_round_def Let_def)
  also have "\<dots> = real_of_int (- 2887) / 10 ^ 4"
    by (simp only: e fl)
  finally show ?thesis by simp
qed

text \<open>
  C9. The result of \<open>compare\<close> is not confined to [0, 1]. Take the text
  \<open>uneven_bright_text\<close>, five lines with 1, 1, 1, 1 and 6 times the syllable U+AC00,
  and the text \<open>one_dark_syllable\<close>, the single syllable U+B108. Both have
  decomposable syllables and share no initial and no medial; the first has brightness
  1 and rhythm regularity 0, the second has brightness -1 and rhythm regularity 1; and
  \<open>compare\<close> of the two is -0.2887, a strictly negative number.
\<close>

theorem compare_negative:
  "(\<exists>fpA fpB. fingerprint uneven_bright_text = Some fpA \<and> fingerprint one_dark_syllable = Some fpB
       \<and> brightness fpA = 1 \<and> rhythmRegularity fpA = 0
       \<and> brightness fpB = - 1 \<and> rhythmRegularity fpB = 1)
   \<and> compare uneven_bright_text one_dark_syllable = Some (Num (- 2887 / 10000))
   \<and> (\<exists>r. compare uneven_bright_text one_dark_syllable = Some (Num r) \<and> r < 0)"
proof -
  have "decs (chars uneven_bright_text) \<noteq> []"
    unfolding uneven_bright_text_def by code_simp
  then obtain fpA where fpA: "fingerprint uneven_bright_text = Some fpA"
    using fingerprint_eq_None_iff [of uneven_bright_text]
    by (cases "fingerprint uneven_bright_text") auto
  have "decs (chars one_dark_syllable) \<noteq> []"
    unfolding one_dark_syllable_def by code_simp
  then obtain fpB where fpB: "fingerprint one_dark_syllable = Some fpB"
    using fingerprint_eq_None_iff [of one_dark_syllable] by (cases "fingerprint one_dark_syllable") auto
  note a = fingerprint_A [OF fpA] and b = fingerprint_B [OF fpB]
  have c: "cosineSimilarity (feature_vector fpA) (feature_vector fpB)
      = Num (- 1 / (sqrt 3 * 2))"
    unfolding a(1) b(1) by (simp add: cosineSimilarity_def)
  have v: "compare uneven_bright_text one_dark_syllable = Some (Num (- 2887 / 10000))"
    by (simp only: compare_def fpA fpB prod.case option.case c jsnumber.case
        round_cosine_value)
  from fpA fpB a(2,3) b(2,3) have
    "\<exists>fpA fpB. fingerprint uneven_bright_text = Some fpA \<and> fingerprint one_dark_syllable = Some fpB
       \<and> brightness fpA = 1 \<and> rhythmRegularity fpA = 0
       \<and> brightness fpB = - 1 \<and> rhythmRegularity fpB = 1"
    by blast
  moreover from v have "\<exists>r. compare uneven_bright_text one_dark_syllable = Some (Num r) \<and> r < 0" by simp
  ultimately show ?thesis using v by blast
qed

end
